theory Spec2Isabelle
  imports Complex_Main "HOL-Library.AList" "HOL-Library.Char_ord" "HOL-Library.List_Lexorder"
    "HOL-Library.Product_Lexorder"
begin

section \<open>Shared Python notions\<close>

text \<open>
  Exceptions are values. \<open>ValueError\<close> keeps the three varying parts of the registry's
  message \<open>f"Unknown <what>: {name}. Available <things>: {available}"\<close>: the label,
  the name that was looked up and the list of registered names. \<open>ConstructorError\<close>
  and \<open>ProbeError\<close> stand for an exception of class \<open>Exception\<close> that a
  registered class raises from its constructor or from \<open>validate_connection\<close>;
  \<open>UpstreamError\<close> for whatever the embeddings client raises. \<open>NotException\<close>
  is a raise whose class derives from \<open>BaseException\<close> but not from
  \<open>Exception\<close> (\<open>KeyboardInterrupt\<close>, \<open>SystemExit\<close>,
  \<open>asyncio.CancelledError\<close>), named by its class.
\<close>

datatype error =
    TypeError
  | KeyError
  | ZeroDivisionError
  | RangeStepZero
  | ValueError string string "string list"
  | ConstructorError string
  | ProbeError
  | UpstreamError string
  | NotException string

text \<open>\<open>isinstance(e, Exception)\<close>: what a clause \<open>except Exception\<close> catches.\<close>

definition is_exception :: "error \<Rightarrow> bool" where
  "is_exception e = (case e of NotException n \<Rightarrow> False | _ \<Rightarrow> True)"

text \<open>\<open>x or default\<close> on an optional string: \<open>None\<close> and \<open>""\<close> are falsy.\<close>

definition py_or :: "string option \<Rightarrow> string \<Rightarrow> string" where
  "py_or x d = (case x of None \<Rightarrow> d | Some v \<Rightarrow> if v = [] then d else v)"

section \<open>core/security.py: RateLimiter\<close>

subsection \<open>Dictionary keys and their ordering\<close>

text \<open>
  The keys that \<open>is_allowed\<close> stores in \<open>self.requests\<close> are tuples
  \<open>(client_id, minute)\<close>; the pruning step orders a key against the integer
  \<open>minute - 1\<close>. Python 3 orders two ints and two tuples (lexicographically), and raises
  \<open>TypeError\<close> for a tuple against an int.
\<close>

datatype pyval = PyInt int | PyTuple string int

fun py_lt :: "pyval \<Rightarrow> pyval \<Rightarrow> error + bool" where
  "py_lt (PyInt a) (PyInt b) = Inr (a < b)"
| "py_lt (PyTuple c m) (PyTuple d n) = Inr ((c, m) < (d, n))"
| "py_lt (PyTuple c m) (PyInt b) = Inl TypeError"
| "py_lt (PyInt a) (PyTuple d n) = Inl TypeError"

record rate_limiter =
  requests_per_minute :: int
  requests :: "(pyval \<times> int) list"

text \<open>\<open>RateLimiter.__init__\<close>\<close>

definition RateLimiter :: "int \<Rightarrow> rate_limiter" where
  "RateLimiter n = \<lparr>requests_per_minute = n, requests = []\<rparr>"

text \<open>
  \<open>old_minutes = [m for m in self.requests.keys() if m < minute - 1]\<close>: the
  comprehension visits the keys in order and stops at the first comparison that raises.
\<close>

fun old_minutes :: "pyval list \<Rightarrow> int \<Rightarrow> error + pyval list" where
  "old_minutes [] minute = Inr []"
| "old_minutes (m # ms) minute =
     (case py_lt m (PyInt (minute - 1)) of
        Inl e \<Rightarrow> Inl e
      | Inr b \<Rightarrow>
          (case old_minutes ms minute of
             Inl e \<Rightarrow> Inl e
           | Inr r \<Rightarrow> Inr (if b then m # r else r)))"

text \<open>\<open>for old_minute in old_minutes: del self.requests[old_minute]\<close>\<close>

fun del_all :: "pyval list \<Rightarrow> (pyval \<times> int) list \<Rightarrow> error + (pyval \<times> int) list" where
  "del_all [] d = Inr d"
| "del_all (k # ks) d =
     (if k \<in> fst ` set d then del_all ks (AList.delete k d) else Inl KeyError)"

text \<open>
  \<open>is_allowed\<close>, with the clock reading \<open>now = time.time()\<close> as an argument. The
  result pairs what the call returns or raises with the limiter afterwards; an exception
  leaves \<open>self.requests\<close> as it was when it was raised.
\<close>

definition is_allowed :: "rate_limiter \<Rightarrow> real \<Rightarrow> string \<Rightarrow> (error + bool) \<times> rate_limiter" where
  "is_allowed rl now client_id =
     (let minute = \<lfloor>now / 60\<rfloor> in
      case old_minutes (map fst (requests rl)) minute of
        Inl e \<Rightarrow> (Inl e, rl)
      | Inr olds \<Rightarrow>
          (case del_all olds (requests rl) of
             Inl e \<Rightarrow> (Inl e, rl)
           | Inr d \<Rightarrow>
               (let key = PyTuple client_id minute;
                    current_requests = (case map_of d key of None \<Rightarrow> 0 | Some c \<Rightarrow> c)
                in if current_requests \<ge> requests_per_minute rl
                   then (Inr False, rl\<lparr>requests := d\<rparr>)
                   else (Inr True,
                         rl\<lparr>requests := AList.update key (current_requests + 1) d\<rparr>))))"

subsection \<open>Client identifier\<close>

text \<open>
  The request as \<open>get_client_id\<close> reads it: the peer (\<open>request.client\<close>, possibly
  \<open>None\<close>) and the header lookup \<open>request.headers.get\<close>.
\<close>

record request =
  client_host :: "string option"
  headers :: "string \<rightharpoonup> string"

text \<open>
  \<open>str.strip()\<close> removes the characters for which \<open>str.isspace\<close> holds; among the
  code points below 256 these are 9 to 13, 28 to 32, 133 and 160.
\<close>

definition py_isspace :: "char \<Rightarrow> bool" where
  "py_isspace c =
     (let n = (of_char c :: nat)
      in (9 \<le> n \<and> n \<le> 13) \<or> (28 \<le> n \<and> n \<le> 32) \<or> n = 133 \<or> n = 160)"

definition py_strip :: "string \<Rightarrow> string" where
  "py_strip s = rev (dropWhile py_isspace (rev (dropWhile py_isspace s)))"

text \<open>\<open>s.split(",")[0]\<close>: the text before the first comma (all of it when there is none).\<close>

definition split_comma_first :: "string \<Rightarrow> string" where
  "split_comma_first s = takeWhile (\<lambda>c. c \<noteq> CHR '','') s"

definition get_client_id :: "request \<Rightarrow> string" where
  "get_client_id req =
     (let client_ip = (case client_host req of Some h \<Rightarrow> h | None \<Rightarrow> ''unknown'');
          client_ip = (case headers req ''X-Forwarded-For'' of
                         None \<Rightarrow> client_ip
                       | Some forwarded_for \<Rightarrow>
                           if forwarded_for \<noteq> []
                           then py_strip (split_comma_first forwarded_for)
                           else client_ip);
          client_ip = (case headers req ''X-Real-IP'' of
                         None \<Rightarrow> client_ip
                       | Some real_ip \<Rightarrow> if real_ip \<noteq> [] then real_ip else client_ip)
      in client_ip)"

section \<open>services/factory.py: ServiceFactory\<close>

subsection \<open>Classes, instances and the registry state\<close>

text \<open>
  A registered class is known to the factory only through what calling it does: the
  constructor returns a new object or raises (\<open>init_error\<close> is what it raises when
  it does), and the object's \<open>validate_connection\<close> returns \<open>True\<close>, returns
  \<open>False\<close> or raises something.
\<close>

datatype probe_outcome = ProbeTrue | ProbeFalse | ProbeRaises error

record provider_class =
  class_name :: string
  init_raises :: bool
  init_error :: error
  connection :: probe_outcome

type_synonym kwargs = "(string \<times> string) list"

text \<open>
  An object: its identity (allocation number), its class, the plain keyword arguments it
  was built with, and the objects handed to the constructor by keyword
  (\<open>vector_store=\<close>, \<open>embeddings_service=\<close>, \<open>llm_provider=\<close>,
  \<open>retrieval_strategy=\<close>), which the base classes store as attributes.
\<close>

datatype inst =
  Instance (oid: nat) (class_of: provider_class) (init_kwargs: kwargs)
    (held: "(string \<times> inst) list")

datatype role = LLM | Embeddings | VectorStore | Retrieval | Chat

record settings =
  llm_provider :: string
  embeddings_provider :: string
  vector_store_provider :: string

text \<open>
  The class attributes of \<open>ServiceFactory\<close>, dictionaries in insertion order, with
  two pieces of bookkeeping that the source does not hold: \<open>next_oid\<close>, the number of
  objects allocated so far (the identity of the next one), and \<open>ctor_calls\<close>, the
  constructor invocations in order, each as the role and the name looked up.
\<close>

record factory =
  llm_providers :: "(string \<times> provider_class) list"
  embeddings_services :: "(string \<times> provider_class) list"
  vector_stores :: "(string \<times> provider_class) list"
  retrieval_strategies :: "(string \<times> provider_class) list"
  chat_services :: "(string \<times> provider_class) list"
  instances :: "(string \<times> inst) list"
  next_oid :: nat
  ctor_calls :: "(role \<times> string) list"

definition empty_factory :: factory where
  "empty_factory =
     \<lparr>llm_providers = [], embeddings_services = [], vector_stores = [],
      retrieval_strategies = [], chat_services = [], instances = [], next_oid = 0,
      ctor_calls = []\<rparr>"

subsection \<open>Registration\<close>

definition register_llm_provider :: "string \<Rightarrow> provider_class \<Rightarrow> factory \<Rightarrow> factory" where
  "register_llm_provider name provider_class s =
     s\<lparr>llm_providers := AList.update name provider_class (llm_providers s)\<rparr>"

definition register_embeddings_service :: "string \<Rightarrow> provider_class \<Rightarrow> factory \<Rightarrow> factory" where
  "register_embeddings_service name service_class s =
     s\<lparr>embeddings_services := AList.update name service_class (embeddings_services s)\<rparr>"

definition register_vector_store :: "string \<Rightarrow> provider_class \<Rightarrow> factory \<Rightarrow> factory" where
  "register_vector_store name store_class s =
     s\<lparr>vector_stores := AList.update name store_class (vector_stores s)\<rparr>"

definition register_retrieval_strategy :: "string \<Rightarrow> provider_class \<Rightarrow> factory \<Rightarrow> factory" where
  "register_retrieval_strategy name strategy_class s =
     s\<lparr>retrieval_strategies := AList.update name strategy_class (retrieval_strategies s)\<rparr>"

definition register_chat_service :: "string \<Rightarrow> provider_class \<Rightarrow> factory \<Rightarrow> factory" where
  "register_chat_service name service_class s =
     s\<lparr>chat_services := AList.update name service_class (chat_services s)\<rparr>"

subsection \<open>Creation\<close>

text \<open>
  Calling a class: \<open>provider_class(**kwargs)\<close>. The call is recorded; it raises
  or allocates the next object.
\<close>

definition instantiate ::
  "role \<Rightarrow> string \<Rightarrow> provider_class \<Rightarrow> kwargs \<Rightarrow> (string \<times> inst) list \<Rightarrow> factory
     \<Rightarrow> (error + inst) \<times> factory" where
  "instantiate r name c kw deps s =
     (let s1 = s\<lparr>ctor_calls := ctor_calls s @ [(r, name)]\<rparr>
      in if init_raises c then (Inl (init_error c), s1)
         else (Inr (Instance (next_oid s1) c kw deps), s1\<lparr>next_oid := Suc (next_oid s1)\<rparr>))"

definition create_llm_provider ::
  "settings \<Rightarrow> string option \<Rightarrow> kwargs \<Rightarrow> factory \<Rightarrow> (error + inst) \<times> factory" where
  "create_llm_provider cfg provider_name kw s =
     (let provider_name = py_or provider_name (llm_provider cfg)
      in case map_of (llm_providers s) provider_name of
           None \<Rightarrow>
             (Inl (ValueError ''Unknown LLM provider'' provider_name
                     (map fst (llm_providers s))), s)
         | Some provider_class \<Rightarrow> instantiate LLM provider_name provider_class kw [] s)"

definition create_embeddings_service ::
  "settings \<Rightarrow> string option \<Rightarrow> kwargs \<Rightarrow> factory \<Rightarrow> (error + inst) \<times> factory" where
  "create_embeddings_service cfg service_name kw s =
     (let service_name = py_or service_name (embeddings_provider cfg)
      in case map_of (embeddings_services s) service_name of
           None \<Rightarrow>
             (Inl (ValueError ''Unknown embeddings service'' service_name
                     (map fst (embeddings_services s))), s)
         | Some service_class \<Rightarrow> instantiate Embeddings service_name service_class kw [] s)"

definition create_vector_store ::
  "settings \<Rightarrow> string option \<Rightarrow> kwargs \<Rightarrow> factory \<Rightarrow> (error + inst) \<times> factory" where
  "create_vector_store cfg store_name kw s =
     (let store_name = py_or store_name (vector_store_provider cfg)
      in case map_of (vector_stores s) store_name of
           None \<Rightarrow>
             (Inl (ValueError ''Unknown vector store'' store_name
                     (map fst (vector_stores s))), s)
         | Some store_class \<Rightarrow> instantiate VectorStore store_name store_class kw [] s)"

subsection \<open>Singletons of the three leaf roles\<close>

definition get_llm_provider ::
  "settings \<Rightarrow> string option \<Rightarrow> factory \<Rightarrow> (error + inst) \<times> factory" where
  "get_llm_provider cfg provider_name s =
     (let provider_name = py_or provider_name (llm_provider cfg);
          cache_key = ''llm_provider_'' @ provider_name
      in case map_of (instances s) cache_key of
           Some i \<Rightarrow> (Inr i, s)
         | None \<Rightarrow>
             (case create_llm_provider cfg (Some provider_name) [] s of
                (Inl e, s1) \<Rightarrow> (Inl e, s1)
              | (Inr i, s1) \<Rightarrow>
                  (Inr i, s1\<lparr>instances := AList.update cache_key i (instances s1)\<rparr>)))"

definition get_embeddings_service ::
  "settings \<Rightarrow> string option \<Rightarrow> factory \<Rightarrow> (error + inst) \<times> factory" where
  "get_embeddings_service cfg service_name s =
     (let service_name = py_or service_name (embeddings_provider cfg);
          cache_key = ''embeddings_service_'' @ service_name
      in case map_of (instances s) cache_key of
           Some i \<Rightarrow> (Inr i, s)
         | None \<Rightarrow>
             (case create_embeddings_service cfg (Some service_name) [] s of
                (Inl e, s1) \<Rightarrow> (Inl e, s1)
              | (Inr i, s1) \<Rightarrow>
                  (Inr i, s1\<lparr>instances := AList.update cache_key i (instances s1)\<rparr>)))"

definition get_vector_store ::
  "settings \<Rightarrow> string option \<Rightarrow> factory \<Rightarrow> (error + inst) \<times> factory" where
  "get_vector_store cfg store_name s =
     (let store_name = py_or store_name (vector_store_provider cfg);
          cache_key = ''vector_store_'' @ store_name
      in case map_of (instances s) cache_key of
           Some i \<Rightarrow> (Inr i, s)
         | None \<Rightarrow>
             (case create_vector_store cfg (Some store_name) [] s of
                (Inl e, s1) \<Rightarrow> (Inl e, s1)
              | (Inr i, s1) \<Rightarrow>
                  (Inr i, s1\<lparr>instances := AList.update cache_key i (instances s1)\<rparr>)))"

subsection \<open>Roles with dependencies\<close>

text \<open>
  \<open>create_retrieval_strategy\<close>: the membership test comes first, then the missing
  dependencies are fetched (vector store before embeddings service), then the class is
  read from the registry and called.
\<close>

definition create_retrieval_strategy ::
  "settings \<Rightarrow> string \<Rightarrow> inst option \<Rightarrow> inst option \<Rightarrow> kwargs \<Rightarrow> factory
     \<Rightarrow> (error + inst) \<times> factory" where
  "create_retrieval_strategy cfg strategy_name vector_store embeddings_service kw s =
     (if map_of (retrieval_strategies s) strategy_name = None
      then (Inl (ValueError ''Unknown retrieval strategy'' strategy_name
                   (map fst (retrieval_strategies s))), s)
      else
        case (case vector_store of
                Some v \<Rightarrow> (Inr v, s)
              | None \<Rightarrow> get_vector_store cfg None s) of
          (Inl e, s1) \<Rightarrow> (Inl e, s1)
        | (Inr vs, s1) \<Rightarrow>
            (case (case embeddings_service of
                     Some v \<Rightarrow> (Inr v, s1)
                   | None \<Rightarrow> get_embeddings_service cfg None s1) of
               (Inl e, s2) \<Rightarrow> (Inl e, s2)
             | (Inr es, s2) \<Rightarrow>
                 (case map_of (retrieval_strategies s2) strategy_name of
                    None \<Rightarrow> (Inl KeyError, s2)
                  | Some strategy_class \<Rightarrow>
                      instantiate Retrieval strategy_name strategy_class kw
                        [(''vector_store'', vs), (''embeddings_service'', es)] s2)))"

definition get_retrieval_strategy ::
  "settings \<Rightarrow> string \<Rightarrow> factory \<Rightarrow> (error + inst) \<times> factory" where
  "get_retrieval_strategy cfg strategy_name s =
     (let cache_key = ''retrieval_strategy_'' @ strategy_name
      in case map_of (instances s) cache_key of
           Some i \<Rightarrow> (Inr i, s)
         | None \<Rightarrow>
             (case create_retrieval_strategy cfg strategy_name None None [] s of
                (Inl e, s1) \<Rightarrow> (Inl e, s1)
              | (Inr i, s1) \<Rightarrow>
                  (Inr i, s1\<lparr>instances := AList.update cache_key i (instances s1)\<rparr>)))"

text \<open>
  \<open>create_chat_service\<close>: the LLM provider is fetched before the retrieval strategy,
  the latter under its default name \<open>"similarity"\<close>.
\<close>

definition create_chat_service ::
  "settings \<Rightarrow> string \<Rightarrow> inst option \<Rightarrow> inst option \<Rightarrow> kwargs \<Rightarrow> factory
     \<Rightarrow> (error + inst) \<times> factory" where
  "create_chat_service cfg service_name llm retrieval_strategy kw s =
     (if map_of (chat_services s) service_name = None
      then (Inl (ValueError ''Unknown chat service'' service_name
                   (map fst (chat_services s))), s)
      else
        case (case llm of
                Some v \<Rightarrow> (Inr v, s)
              | None \<Rightarrow> get_llm_provider cfg None s) of
          (Inl e, s1) \<Rightarrow> (Inl e, s1)
        | (Inr lp, s1) \<Rightarrow>
            (case (case retrieval_strategy of
                     Some v \<Rightarrow> (Inr v, s1)
                   | None \<Rightarrow> get_retrieval_strategy cfg ''similarity'' s1) of
               (Inl e, s2) \<Rightarrow> (Inl e, s2)
             | (Inr rs, s2) \<Rightarrow>
                 (case map_of (chat_services s2) service_name of
                    None \<Rightarrow> (Inl KeyError, s2)
                  | Some service_class \<Rightarrow>
                      instantiate Chat service_name service_class kw
                        [(''llm_provider'', lp), (''retrieval_strategy'', rs)] s2)))"

definition get_chat_service ::
  "settings \<Rightarrow> string \<Rightarrow> factory \<Rightarrow> (error + inst) \<times> factory" where
  "get_chat_service cfg service_name s =
     (let cache_key = ''chat_service_'' @ service_name
      in case map_of (instances s) cache_key of
           Some i \<Rightarrow> (Inr i, s)
         | None \<Rightarrow>
             (case create_chat_service cfg service_name None None [] s of
                (Inl e, s1) \<Rightarrow> (Inl e, s1)
              | (Inr i, s1) \<Rightarrow>
                  (Inr i, s1\<lparr>instances := AList.update cache_key i (instances s1)\<rparr>)))"

definition clear_instances :: "factory \<Rightarrow> factory" where
  "clear_instances s = s\<lparr>instances := []\<rparr>"

definition get_available_providers :: "factory \<Rightarrow> (string \<times> string list) list" where
  "get_available_providers s =
     [(''llm_providers'', map fst (llm_providers s)),
      (''embeddings_services'', map fst (embeddings_services s)),
      (''vector_stores'', map fst (vector_stores s)),
      (''retrieval_strategies'', map fst (retrieval_strategies s)),
      (''chat_services'', map fst (chat_services s))]"

subsection \<open>Connection validation and readiness\<close>

definition validate_connection :: "inst \<Rightarrow> error + bool" where
  "validate_connection i =
     (case connection (class_of i) of
        ProbeTrue \<Rightarrow> Inr True
      | ProbeFalse \<Rightarrow> Inr False
      | ProbeRaises e \<Rightarrow> Inl e)"

text \<open>
  One \<open>try: ... except Exception: results[key] = False\<close> block of
  \<open>validate_all_connections\<close>, given what the \<open>get_*\<close> call produced: the
  boolean stored for the role, or the raise that the clause does not catch and that
  leaves the method.
\<close>

definition probe_guarded :: "error + inst \<Rightarrow> error + bool" where
  "probe_guarded r =
     (case (case r of Inl e \<Rightarrow> Inl e | Inr i \<Rightarrow> validate_connection i) of
        Inl e \<Rightarrow> if is_exception e then Inr False else Inl e
      | Inr b \<Rightarrow> Inr b)"

definition validate_all_connections ::
  "settings \<Rightarrow> factory \<Rightarrow> (error + (string \<times> bool) list) \<times> factory" where
  "validate_all_connections cfg s =
     (let results = [];
          (r1, s1) = get_llm_provider cfg None s
      in case probe_guarded r1 of
           Inl e \<Rightarrow> (Inl e, s1)
         | Inr b1 \<Rightarrow>
             (let results = AList.update ''llm_provider'' b1 results;
                  (r2, s2) = get_embeddings_service cfg None s1
              in case probe_guarded r2 of
                   Inl e \<Rightarrow> (Inl e, s2)
                 | Inr b2 \<Rightarrow>
                     (let results = AList.update ''embeddings_service'' b2 results;
                          (r3, s3) = get_vector_store cfg None s2
                      in case probe_guarded r3 of
                           Inl e \<Rightarrow> (Inl e, s3)
                         | Inr b3 \<Rightarrow>
                             (Inr (AList.update ''vector_store'' b3 results), s3))))"

text \<open>\<open>all(connections.values())\<close>\<close>

fun py_all :: "bool list \<Rightarrow> bool" where
  "py_all [] = True"
| "py_all (b # bs) = (b \<and> py_all bs)"

text \<open>
  \<open>main.readiness_check\<close>: status code, status text and the per-service booleans of
  the JSON response (the timestamp is left out). The response of the
  \<open>except Exception\<close> branch has an \<open>"error"\<close> entry (\<open>str(e)\<close>, here the
  exception itself) and no \<open>"services"\<close> entry; a raise that the clause does not
  catch leaves the handler.
\<close>

record ready_response =
  status_code :: nat
  status :: string
  services :: "(string \<times> bool) list option"
  error_detail :: "error option"

definition readiness_check ::
  "settings \<Rightarrow> factory \<Rightarrow> (error + ready_response) \<times> factory" where
  "readiness_check cfg s =
     (case validate_all_connections cfg s of
        (Inr connections, s1) \<Rightarrow>
          (let all_healthy = py_all (map snd connections)
           in (Inr \<lparr>status_code = (if all_healthy then 200 else 503),
                     status = (if all_healthy then ''ready'' else ''not ready''),
                     services = Some connections, error_detail = None\<rparr>, s1))
      | (Inl e, s1) \<Rightarrow>
          if is_exception e
          then (Inr \<lparr>status_code = 503, status = ''not ready'',
                      services = None, error_detail = Some e\<rparr>, s1)
          else (Inl e, s1))"

section \<open>services/embeddings/openai_embeddings.py: OpenAIEmbeddings\<close>

text \<open>
  What \<open>self.client.embeddings.create\<close> returns: the list \<open>response.data\<close> (each
  item reduced to its \<open>embedding\<close>, of an arbitrary type \<open>'v\<close>) and
  \<open>response.usage\<close>, possibly \<open>None\<close>.
\<close>

record 'v api_response =
  data :: "'v list"
  api_usage :: "(string \<times> int) list option"

record 'v EmbeddingResponse =
  embedding :: 'v
  model :: string
  usage :: "(string \<times> int) list"

text \<open>
  What the service does to the outside, in order: a request to the embeddings endpoint
  (model, input, keyword arguments) or the pause \<open>asyncio.sleep(0.1)\<close>. The endpoint
  is a function of everything done so far and of the request, so that it may answer the
  same request differently at different times.
\<close>

datatype event = ApiCall string "string list" kwargs | Sleep

type_synonym 'v upstream =
  "event list \<Rightarrow> string \<Rightarrow> string list \<Rightarrow> kwargs \<Rightarrow> error + 'v api_response"

text \<open>\<open>usage.get(key, 0)\<close>\<close>

definition usage_get :: "(string \<times> int) list \<Rightarrow> string \<Rightarrow> int" where
  "usage_get u k = (case map_of u k of None \<Rightarrow> 0 | Some v \<Rightarrow> v)"

text \<open>
  The loop over \<open>response.data\<close> in \<open>_embed_batch\<close>; \<open>n\<close> is \<open>len(texts)\<close>,
  and \<open>// n\<close> raises for \<open>n = 0\<close> when the first item is built.
\<close>

fun make_responses ::
  "'v list \<Rightarrow> string \<Rightarrow> (string \<times> int) list \<Rightarrow> nat \<Rightarrow> error + 'v EmbeddingResponse list" where
  "make_responses [] m u n = Inr []"
| "make_responses (d # ds) m u n =
     (if n = 0 then Inl ZeroDivisionError
      else case make_responses ds m u n of
             Inl e \<Rightarrow> Inl e
           | Inr rs \<Rightarrow>
               Inr (\<lparr>embedding = d, model = m,
                     usage = [(''total_tokens'', usage_get u ''total_tokens'' div int n),
                              (''prompt_tokens'', usage_get u ''prompt_tokens'' div int n)]\<rparr>
                    # rs))"

text \<open>\<open>_embed_batch\<close>: every exception is logged and raised again.\<close>

definition embed_batch ::
  "'v upstream \<Rightarrow> string \<Rightarrow> kwargs \<Rightarrow> string list \<Rightarrow> event list
     \<Rightarrow> (error + 'v EmbeddingResponse list) \<times> event list" where
  "embed_batch client m kw texts tr =
     (let tr1 = tr @ [ApiCall m texts kw]
      in case client tr m texts kw of
           Inl e \<Rightarrow> (Inl e, tr1)
         | Inr response \<Rightarrow>
             (let u = (case api_usage response of None \<Rightarrow> [] | Some d \<Rightarrow> d)
              in (make_responses (data response) m u (length texts), tr1)))"

text \<open>
  The body of \<open>for i in range(0, len(texts), batch_size)\<close> for a positive step, from
  index \<open>i\<close> on; \<open>texts[i:i + batch_size]\<close> is \<open>take batch_size (drop i texts)\<close>.
\<close>

function embed_loop ::
  "'v upstream \<Rightarrow> string \<Rightarrow> kwargs \<Rightarrow> string list \<Rightarrow> nat \<Rightarrow> nat
     \<Rightarrow> 'v EmbeddingResponse list \<Rightarrow> event list
     \<Rightarrow> (error + 'v EmbeddingResponse list) \<times> event list" where
  "embed_loop client m kw texts batch_size i all_responses tr =
     (if batch_size = 0 \<or> length texts \<le> i then (Inr all_responses, tr)
      else
        case embed_batch client m kw (take batch_size (drop i texts)) tr of
          (Inl e, tr1) \<Rightarrow> (Inl e, tr1)
        | (Inr batch_responses, tr1) \<Rightarrow>
            embed_loop client m kw texts batch_size (i + batch_size)
              (all_responses @ batch_responses)
              (if i + batch_size < length texts then tr1 @ [Sleep] else tr1))"
  by pat_completeness auto
termination
  by (relation "measure (\<lambda>(client, m, kw, texts, batch_size, i, all_responses, tr).
         length texts - i)") auto

text \<open>
  \<open>embed_texts\<close>. \<open>range\<close> rejects a zero step with \<open>ValueError\<close> (here
  \<open>RangeStepZero\<close>) and is empty for a negative one.
\<close>

definition embed_texts ::
  "string \<Rightarrow> 'v upstream \<Rightarrow> string list \<Rightarrow> string option \<Rightarrow> int \<Rightarrow> kwargs \<Rightarrow> event list
     \<Rightarrow> (error + 'v EmbeddingResponse list) \<times> event list" where
  "embed_texts default_model client texts model_arg batch_size kw tr =
     (let m = py_or model_arg default_model
      in if texts = [] then (Inr [], tr)
         else if batch_size = 0 then (Inl RangeStepZero, tr)
         else if batch_size < 0 then (Inr [], tr)
         else embed_loop client m kw texts (nat batch_size) 0 [] tr)"

section \<open>Notions used to state the properties\<close>

subsection \<open>The registry by role\<close>

text \<open>
  The specification speaks of \<open>get(role, name)\<close> and \<open>create(role, name, params)\<close>;
  the source has one method of each kind per role. The definitions below select the
  method, the dictionary, the cache-key prefix and the name actually looked up (the
  configured default replaces a missing or empty name of the three leaf roles; the
  default arguments \<open>"similarity"\<close> and \<open>"default"\<close> replace a missing name of the
  other two).
\<close>

definition registry :: "role \<Rightarrow> factory \<Rightarrow> (string \<times> provider_class) list" where
  "registry r s =
     (case r of
        LLM \<Rightarrow> llm_providers s
      | Embeddings \<Rightarrow> embeddings_services s
      | VectorStore \<Rightarrow> vector_stores s
      | Retrieval \<Rightarrow> retrieval_strategies s
      | Chat \<Rightarrow> chat_services s)"

definition role_prefix :: "role \<Rightarrow> string" where
  "role_prefix r =
     (case r of
        LLM \<Rightarrow> ''llm_provider_''
      | Embeddings \<Rightarrow> ''embeddings_service_''
      | VectorStore \<Rightarrow> ''vector_store_''
      | Retrieval \<Rightarrow> ''retrieval_strategy_''
      | Chat \<Rightarrow> ''chat_service_'')"

definition role_label :: "role \<Rightarrow> string" where
  "role_label r =
     (case r of
        LLM \<Rightarrow> ''Unknown LLM provider''
      | Embeddings \<Rightarrow> ''Unknown embeddings service''
      | VectorStore \<Rightarrow> ''Unknown vector store''
      | Retrieval \<Rightarrow> ''Unknown retrieval strategy''
      | Chat \<Rightarrow> ''Unknown chat service'')"

definition effective_name :: "settings \<Rightarrow> role \<Rightarrow> string option \<Rightarrow> string" where
  "effective_name cfg r name =
     (case r of
        LLM \<Rightarrow> py_or name (llm_provider cfg)
      | Embeddings \<Rightarrow> py_or name (embeddings_provider cfg)
      | VectorStore \<Rightarrow> py_or name (vector_store_provider cfg)
      | Retrieval \<Rightarrow> (case name of None \<Rightarrow> ''similarity'' | Some n \<Rightarrow> n)
      | Chat \<Rightarrow> (case name of None \<Rightarrow> ''default'' | Some n \<Rightarrow> n))"

definition cache_key :: "settings \<Rightarrow> role \<Rightarrow> string option \<Rightarrow> string" where
  "cache_key cfg r name = role_prefix r @ effective_name cfg r name"

definition get_service ::
  "settings \<Rightarrow> role \<Rightarrow> string option \<Rightarrow> factory \<Rightarrow> (error + inst) \<times> factory" where
  "get_service cfg r name s =
     (case r of
        LLM \<Rightarrow> get_llm_provider cfg name s
      | Embeddings \<Rightarrow> get_embeddings_service cfg name s
      | VectorStore \<Rightarrow> get_vector_store cfg name s
      | Retrieval \<Rightarrow> get_retrieval_strategy cfg (effective_name cfg Retrieval name) s
      | Chat \<Rightarrow> get_chat_service cfg (effective_name cfg Chat name) s)"

text \<open>
  \<open>d1\<close> and \<open>d2\<close> are the two optional dependencies of the roles that have them
  and are ignored by the leaf roles.
\<close>

definition create_service ::
  "settings \<Rightarrow> role \<Rightarrow> string option \<Rightarrow> inst option \<Rightarrow> inst option \<Rightarrow> kwargs \<Rightarrow> factory
     \<Rightarrow> (error + inst) \<times> factory" where
  "create_service cfg r name d1 d2 kw s =
     (case r of
        LLM \<Rightarrow> create_llm_provider cfg name kw s
      | Embeddings \<Rightarrow> create_embeddings_service cfg name kw s
      | VectorStore \<Rightarrow> create_vector_store cfg name kw s
      | Retrieval \<Rightarrow>
          create_retrieval_strategy cfg (effective_name cfg Retrieval name) d1 d2 kw s
      | Chat \<Rightarrow> create_chat_service cfg (effective_name cfg Chat name) d1 d2 kw s)"

text \<open>The constructor invocations of one role among recorded calls.\<close>

definition calls_of :: "role \<Rightarrow> (role \<times> string) list \<Rightarrow> (role \<times> string) list" where
  "calls_of r cs = filter (\<lambda>c. fst c = r) cs"

subsection \<open>Consistency of the cache\<close>

text \<open>
  A cache key is registered when it is the prefix of some role followed by a name in
  that role's dictionary. The cache is consistent when every cached object was allocated
  (its identity is below \<open>next_oid\<close>) and sits under a registered key. The empty
  factory is consistent and every operation of the factory keeps it so.
\<close>

definition key_registered :: "factory \<Rightarrow> string \<Rightarrow> bool" where
  "key_registered s k =
     (\<exists>r \<in> {LLM, Embeddings, VectorStore, Retrieval, Chat}.
        take (length (role_prefix r)) k = role_prefix r
        \<and> drop (length (role_prefix r)) k \<in> fst ` set (registry r s))"

definition cache_ok :: "factory \<Rightarrow> bool" where
  "cache_ok s =
     (\<forall>(k, i) \<in> set (instances s). oid i < next_oid s \<and> key_registered s k)"

text \<open>
  The states of the factory: the empty one at import, and whatever registrations,
  \<open>create\<close> and \<open>get\<close> calls, clearing and validation make of a state.
\<close>

inductive reachable :: "settings \<Rightarrow> factory \<Rightarrow> bool" for cfg :: settings where
  start: "reachable cfg empty_factory"
| reg_llm: "reachable cfg s \<Longrightarrow> reachable cfg (register_llm_provider n c s)"
| reg_embeddings: "reachable cfg s \<Longrightarrow> reachable cfg (register_embeddings_service n c s)"
| reg_store: "reachable cfg s \<Longrightarrow> reachable cfg (register_vector_store n c s)"
| reg_strategy: "reachable cfg s \<Longrightarrow> reachable cfg (register_retrieval_strategy n c s)"
| reg_chat: "reachable cfg s \<Longrightarrow> reachable cfg (register_chat_service n c s)"
| made: "reachable cfg s \<Longrightarrow> reachable cfg (snd (create_service cfg r name d1 d2 kw s))"
| got: "reachable cfg s \<Longrightarrow> reachable cfg (snd (get_service cfg r name s))"
| cleared: "reachable cfg s \<Longrightarrow> reachable cfg (clear_instances s)"
| validated: "reachable cfg s \<Longrightarrow> reachable cfg (snd (validate_all_connections cfg s))"

subsection \<open>When an object can be obtained\<close>

text \<open>
  A role constructs under a name when a class is registered for the role under that
  name and its constructor does not raise. The object of a role and name can be obtained
  when it is cached or the role constructs under the name looked up and, for the two
  roles with dependencies, each dependency can be obtained under its default name: the
  vector store and the embeddings service for a retrieval strategy; the LLM provider
  and the retrieval strategy \<open>"similarity"\<close> for a chat service.
\<close>

definition constructs :: "role \<Rightarrow> string \<Rightarrow> factory \<Rightarrow> bool" where
  "constructs r n s =
     (case map_of (registry r s) n of None \<Rightarrow> False | Some c \<Rightarrow> \<not> init_raises c)"

definition cached :: "settings \<Rightarrow> role \<Rightarrow> string option \<Rightarrow> factory \<Rightarrow> bool" where
  "cached cfg r name s = (map_of (instances s) (cache_key cfg r name) \<noteq> None)"

definition leaf_obtainable :: "settings \<Rightarrow> role \<Rightarrow> string option \<Rightarrow> factory \<Rightarrow> bool" where
  "leaf_obtainable cfg r name s =
     (cached cfg r name s \<or> constructs r (effective_name cfg r name) s)"

definition strategy_obtainable :: "settings \<Rightarrow> string option \<Rightarrow> factory \<Rightarrow> bool" where
  "strategy_obtainable cfg name s =
     (cached cfg Retrieval name s
      \<or> (constructs Retrieval (effective_name cfg Retrieval name) s
         \<and> leaf_obtainable cfg VectorStore None s
         \<and> leaf_obtainable cfg Embeddings None s))"

definition chat_obtainable :: "settings \<Rightarrow> string option \<Rightarrow> factory \<Rightarrow> bool" where
  "chat_obtainable cfg name s =
     (cached cfg Chat name s
      \<or> (constructs Chat (effective_name cfg Chat name) s
         \<and> leaf_obtainable cfg LLM None s
         \<and> strategy_obtainable cfg None s))"

definition obtainable :: "settings \<Rightarrow> role \<Rightarrow> string option \<Rightarrow> factory \<Rightarrow> bool" where
  "obtainable cfg r name s =
     (case r of
        Retrieval \<Rightarrow> strategy_obtainable cfg name s
      | Chat \<Rightarrow> chat_obtainable cfg name s
      | _ \<Rightarrow> leaf_obtainable cfg r name s)"

subsection \<open>Health of a leaf role\<close>

text \<open>
  The class whose object \<open>get\<close> hands out for a leaf role under its configured
  default name: that of the cached object, else the registered class when its
  constructor does not raise. The role is healthy when there is such a class and its
  \<open>validate_connection\<close> returns \<open>True\<close>; it fails when the name is unknown, the
  constructor raises, or the probe raises or returns \<open>False\<close>.
\<close>

definition served_class :: "settings \<Rightarrow> role \<Rightarrow> factory \<Rightarrow> provider_class option" where
  "served_class cfg r s =
     (case map_of (instances s) (cache_key cfg r None) of
        Some i \<Rightarrow> Some (class_of i)
      | None \<Rightarrow>
          (case map_of (registry r s) (effective_name cfg r None) of
             None \<Rightarrow> None
           | Some c \<Rightarrow> if init_raises c then None else Some c))"

definition role_healthy :: "settings \<Rightarrow> role \<Rightarrow> factory \<Rightarrow> bool" where
  "role_healthy cfg r s =
     (case served_class cfg r s of None \<Rightarrow> False | Some c \<Rightarrow> connection c = ProbeTrue)"

text \<open>
  What fetching and probing a leaf role under its configured default name raises, if
  anything: the probe's raise for a cached object; else the \<open>ValueError\<close> of an
  unknown name, what the constructor raises, or the probe's raise for the new object.
  The role aborts the validation when that raise is not an \<open>Exception\<close>.
\<close>

definition role_raises :: "settings \<Rightarrow> role \<Rightarrow> factory \<Rightarrow> error option" where
  "role_raises cfg r s =
     (case map_of (instances s) (cache_key cfg r None) of
        Some i \<Rightarrow> (case connection (class_of i) of ProbeRaises e \<Rightarrow> Some e | _ \<Rightarrow> None)
      | None \<Rightarrow>
          (case map_of (registry r s) (effective_name cfg r None) of
             None \<Rightarrow>
               Some (ValueError (role_label r) (effective_name cfg r None)
                       (map fst (registry r s)))
           | Some c \<Rightarrow>
               if init_raises c then Some (init_error c)
               else (case connection c of ProbeRaises e \<Rightarrow> Some e | _ \<Rightarrow> None)))"

definition role_aborts :: "settings \<Rightarrow> role \<Rightarrow> factory \<Rightarrow> bool" where
  "role_aborts cfg r s =
     (case role_raises cfg r s of None \<Rightarrow> False | Some e \<Rightarrow> \<not> is_exception e)"

text \<open>
  What one \<open>try\<close> block of the validation comes to for a role: the boolean it
  records, or the raise that it lets through.
\<close>

definition role_outcome :: "settings \<Rightarrow> role \<Rightarrow> factory \<Rightarrow> error + bool" where
  "role_outcome cfg r s =
     (case role_raises cfg r s of
        None \<Rightarrow> Inr (role_healthy cfg r s)
      | Some e \<Rightarrow> if is_exception e then Inr False else Inl e)"

subsection \<open>Batches\<close>

text \<open>
  The slices of a list of a given positive size, in order: all of that size except a
  shorter last one when the length is not a multiple.
\<close>

fun batches :: "nat \<Rightarrow> 'a list \<Rightarrow> 'a list list" where
  "batches n xs =
     (if n = 0 \<or> xs = [] then [] else take n xs # batches n (drop n xs))"

text \<open>The requests sent to the endpoint and the pauses among recorded events.\<close>

definition api_inputs :: "event list \<Rightarrow> string list list" where
  "api_inputs tr = concat (map (\<lambda>e. case e of ApiCall m b kw \<Rightarrow> [b] | Sleep \<Rightarrow> []) tr)"

definition sleeps :: "event list \<Rightarrow> nat" where
  "sleeps tr = length (filter (\<lambda>e. e = Sleep) tr)"


subsection \<open>Repeated calls\<close>

text \<open>
  \<open>k\<close> successive \<open>get\<close> calls for the same role and name: what each returned or
  raised, in order, and the state after the last.
\<close>

fun get_times ::
  "settings \<Rightarrow> role \<Rightarrow> string option \<Rightarrow> nat \<Rightarrow> factory \<Rightarrow> (error + inst) list \<times> factory" where
  "get_times cfg r name 0 s = ([], s)"
| "get_times cfg r name (Suc k) s =
     (case get_service cfg r name s of
        (res, s1) \<Rightarrow> (case get_times cfg r name k s1 of (rs, s2) \<Rightarrow> (res # rs, s2)))"

subsection \<open>A concrete registry\<close>

text \<open>
  The defaults of \<open>core/config.py\<close> for the three provider settings, a class whose
  constructor and connection check succeed, and the factory in which one such class is
  registered for each role under the default name.
\<close>

definition default_settings :: settings where
  "default_settings =
     \<lparr>llm_provider = ''openai'', embeddings_provider = ''openai'',
      vector_store_provider = ''pinecone''\<rparr>"

definition stub_class :: "string \<Rightarrow> provider_class" where
  "stub_class n =
     \<lparr>class_name = n, init_raises = False, init_error = ConstructorError n,
      connection = ProbeTrue\<rparr>"

definition stub_factory :: factory where
  "stub_factory =
     register_chat_service ''default'' (stub_class ''Chat'')
       (register_retrieval_strategy ''similarity'' (stub_class ''Similarity'')
         (register_vector_store ''pinecone'' (stub_class ''Store'')
           (register_embeddings_service ''openai'' (stub_class ''Embed'')
             (register_llm_provider ''openai'' (stub_class ''LLM'') empty_factory))))"

subsection \<open>Behaviour of the embeddings endpoint\<close>



subsection \<open>Notions used in the proofs about the registry\<close>

text \<open>
  A change of state that leaves the registrations alone, allocates at most upwards and
  keeps a consistent cache consistent.
\<close>

definition trans_ok :: "factory \<Rightarrow> factory \<Rightarrow> bool" where
  "trans_ok s s' =
     ((\<forall>q. registry q s' = registry q s) \<and> next_oid s \<le> next_oid s'
      \<and> (cache_ok s \<longrightarrow> cache_ok s'))"

text \<open>
  The shape shared by the \<open>get_*\<close> methods of the two roles with dependencies,
  over the getters \<open>g1\<close> and \<open>g2\<close> of the dependencies and the keywords
  \<open>l1\<close> and \<open>l2\<close> under which they are passed on.
\<close>

definition build_with ::
  "(factory \<Rightarrow> (error + inst) \<times> factory) \<Rightarrow> (factory \<Rightarrow> (error + inst) \<times> factory)
     \<Rightarrow> string \<Rightarrow> string \<Rightarrow> role \<Rightarrow> string \<Rightarrow> factory \<Rightarrow> (error + inst) \<times> factory" where
  "build_with g1 g2 l1 l2 r n s =
     (case map_of (instances s) (role_prefix r @ n) of
        Some i \<Rightarrow> (Inr i, s)
      | None \<Rightarrow>
          (case map_of (registry r s) n of
             None \<Rightarrow> (Inl (ValueError (role_label r) n (map fst (registry r s))), s)
           | Some c \<Rightarrow>
               (case g1 s of
                  (Inl e, s1) \<Rightarrow> (Inl e, s1)
                | (Inr a, s1) \<Rightarrow>
                    (case g2 s1 of
                       (Inl e, s2) \<Rightarrow> (Inl e, s2)
                     | (Inr b, s2) \<Rightarrow>
                         (case instantiate r n c [] [(l1, a), (l2, b)] s2 of
                            (Inl e, s3) \<Rightarrow> (Inl e, s3)
                          | (Inr i, s3) \<Rightarrow>
                              (Inr i, s3\<lparr>instances :=
                                 AList.update (role_prefix r @ n) i (instances s3)\<rparr>))))))"

text \<open>Such a change that also calls only constructors of the roles in \<open>A\<close>.\<close>

definition run_ok :: "role set \<Rightarrow> factory \<Rightarrow> factory \<Rightarrow> bool" where
  "run_ok A s s' =
     (trans_ok s s' \<and> (\<exists>xs. ctor_calls s' = ctor_calls s @ xs \<and> fst ` set xs \<subseteq> A))"

text \<open>A getter all of whose runs are of that kind.\<close>

definition getter_ok :: "role set \<Rightarrow> (factory \<Rightarrow> (error + inst) \<times> factory) \<Rightarrow> bool" where
  "getter_ok A g = (\<forall>t. run_ok A t (snd (g t)))"

declare batches.simps [simp del]

declare embed_loop.simps [simp del]

section \<open>Rate limiter: admission\<close>

lemma old_minutes_tuple_raises:
  "PyTuple c m \<in> set ks \<Longrightarrow> old_minutes ks minute = Inl TypeError"
proof (induction ks)
  case Nil
  then show ?case by simp
next
  case (Cons k ks)
  show ?case
  proof (cases k)
    case (PyInt a)
    with Cons show ?thesis by simp
  next
    case (PyTuple d n)
    then show ?thesis by simp
  qed
qed

text \<open>
  C2. The claim: with ceiling \<open>N\<close>, the first \<open>N\<close> calls for one client within a
  minute return true, the next returns false, and a call in the next minute returns true
  again. The code at ceiling 2: the first call of client \<open>"a"\<close> at time 0 returns
  \<open>True\<close> and stores the key \<open>("a", 0)\<close>; the second call, one second later, raises
  \<open>TypeError\<close> from the pruning step instead of returning \<open>True\<close>, because the
  step orders the stored tuple key against an integer; so does a call in the next minute
  (time 60).
\<close>

theorem is_allowed_second_call_raises:
  "is_allowed (RateLimiter 2) 0 ''a''
     = (Inr True, \<lparr>requests_per_minute = 2, requests = [(PyTuple ''a'' 0, 1)]\<rparr>)
   \<and> is_allowed \<lparr>requests_per_minute = 2, requests = [(PyTuple ''a'' 0, 1)]\<rparr> 1 ''a''
     = (Inl TypeError, \<lparr>requests_per_minute = 2, requests = [(PyTuple ''a'' 0, 1)]\<rparr>)
   \<and> is_allowed \<lparr>requests_per_minute = 2, requests = [(PyTuple ''a'' 0, 1)]\<rparr> 60 ''a''
     = (Inl TypeError, \<lparr>requests_per_minute = 2, requests = [(PyTuple ''a'' 0, 1)]\<rparr>)"
  by (simp add: is_allowed_def RateLimiter_def)

text \<open>
  C3. The claim: after an admission call no entry older than the previous minute is left,
  the pruning step having removed them. The code: as soon as the map holds any tuple key
  (and \<open>is_allowed\<close> stores no other kind), the pruning step raises \<open>TypeError\<close>
  before it deletes anything, and the map is left as it was, stale entries included.
\<close>

theorem is_allowed_no_pruning:
  assumes "(PyTuple c m, n) \<in> set (requests rl)"
  shows "is_allowed rl now client_id = (Inl TypeError, rl)"
proof -
  from assms have "PyTuple c m \<in> set (map fst (requests rl))" by force
  then have "old_minutes (map fst (requests rl)) \<lfloor>now / 60\<rfloor> = Inl TypeError"
    by (rule old_minutes_tuple_raises)
  then show ?thesis by (simp add: is_allowed_def)
qed

text \<open>
  The entry of minute 0 is still there after a call in minute 3, although
  \<open>0 < 3 - 1\<close>.
\<close>

theorem is_allowed_no_pruning_witness:
  "(PyTuple ''a'' 0, 1)
     \<in> set (requests \<lparr>requests_per_minute = 2, requests = [(PyTuple ''a'' 0, 1)]\<rparr>)
   \<and> (0::int) < \<lfloor>(180::real) / 60\<rfloor> - 1
   \<and> is_allowed \<lparr>requests_per_minute = 2, requests = [(PyTuple ''a'' 0, 1)]\<rparr> 180 ''b''
       = (Inl TypeError, \<lparr>requests_per_minute = 2, requests = [(PyTuple ''a'' 0, 1)]\<rparr>)"
  using is_allowed_no_pruning
    [of "''a''" 0 1 "\<lparr>requests_per_minute = 2, requests = [(PyTuple ''a'' 0, 1)]\<rparr>" 180 "''b''"]
  by simp

section \<open>Rate limiter: client identifier\<close>

text \<open>
  C9, as claimed: \<open>X-Forwarded-For\<close> is preferred whenever it is present. It is not:
  with both headers present the result is the \<open>X-Real-IP\<close> value, not the first
  forwarded-for entry.
\<close>

theorem get_client_id_real_ip_wins:
  "headers \<lparr>client_host = Some ''3.3.3.3'',
            headers = [''X-Forwarded-For'' \<mapsto> ''1.1.1.1, 9.9.9.9'',
                       ''X-Real-IP'' \<mapsto> ''2.2.2.2'']\<rparr>
     ''X-Forwarded-For'' = Some ''1.1.1.1, 9.9.9.9''
   \<and> py_strip (split_comma_first ''1.1.1.1, 9.9.9.9'') = ''1.1.1.1''
   \<and> get_client_id \<lparr>client_host = Some ''3.3.3.3'',
        headers = [''X-Forwarded-For'' \<mapsto> ''1.1.1.1, 9.9.9.9'',
                   ''X-Real-IP'' \<mapsto> ''2.2.2.2'']\<rparr>
       = ''2.2.2.2''"
  by (simp add: get_client_id_def py_strip_def split_comma_first_def py_isspace_def)

text \<open>
  C9, amended: a non-empty \<open>X-Real-IP\<close> header is used whenever there is one; without
  it, the first comma-separated entry of a non-empty \<open>X-Forwarded-For\<close> header,
  stripped of surrounding whitespace; without both, the peer address, or
  \<open>"unknown"\<close> when the request has no peer. An empty header counts as absent.
\<close>

theorem get_client_id_precedence:
  "(headers req ''X-Real-IP'' = Some r \<and> r \<noteq> [] \<longrightarrow> get_client_id req = r)
   \<and> (headers req ''X-Real-IP'' \<in> {None, Some []}
        \<and> headers req ''X-Forwarded-For'' = Some f \<and> f \<noteq> []
        \<longrightarrow> get_client_id req = py_strip (split_comma_first f))
   \<and> (headers req ''X-Real-IP'' \<in> {None, Some []}
        \<and> headers req ''X-Forwarded-For'' \<in> {None, Some []}
        \<longrightarrow> get_client_id req
            = (case client_host req of Some h \<Rightarrow> h | None \<Rightarrow> ''unknown''))"
  by (auto simp: get_client_id_def split: option.splits)

theorem get_client_id_precedence_witness:
  "get_client_id \<lparr>client_host = Some ''3.3.3.3'',
       headers = [''X-Forwarded-For'' \<mapsto> ''1.1.1.1, 9.9.9.9'',
                  ''X-Real-IP'' \<mapsto> ''2.2.2.2'']\<rparr> = ''2.2.2.2''
   \<and> get_client_id \<lparr>client_host = Some ''3.3.3.3'',
       headers = [''X-Forwarded-For'' \<mapsto> '' 1.1.1.1 , 9.9.9.9'']\<rparr> = ''1.1.1.1''
   \<and> get_client_id \<lparr>client_host = Some ''3.3.3.3'', headers = Map.empty\<rparr> = ''3.3.3.3''
   \<and> get_client_id \<lparr>client_host = None, headers = [''X-Real-IP'' \<mapsto> []]\<rparr> = ''unknown''"
  using
    get_client_id_precedence
      [of "\<lparr>client_host = Some ''3.3.3.3'',
            headers = [''X-Forwarded-For'' \<mapsto> ''1.1.1.1, 9.9.9.9'',
                       ''X-Real-IP'' \<mapsto> ''2.2.2.2'']\<rparr>" "''2.2.2.2''" "''x''"]
    get_client_id_precedence
      [of "\<lparr>client_host = Some ''3.3.3.3'',
            headers = [''X-Forwarded-For'' \<mapsto> '' 1.1.1.1 , 9.9.9.9'']\<rparr>"
          "''x''" "'' 1.1.1.1 , 9.9.9.9''"]
    get_client_id_precedence
      [of "\<lparr>client_host = Some ''3.3.3.3'', headers = Map.empty\<rparr>" "''x''" "''x''"]
    get_client_id_precedence
      [of "\<lparr>client_host = None, headers = [''X-Real-IP'' \<mapsto> []]\<rparr>" "''x''" "''x''"]
  by (simp add: py_strip_def split_comma_first_def py_isspace_def)

section \<open>Registry: how a get call changes the state\<close>

lemma py_or_idem: "py_or (Some (py_or x d)) d = py_or x d"
  by (simp add: py_or_def split: option.splits)

lemma registry_updates [simp]:
  "registry r (s\<lparr>instances := a\<rparr>) = registry r s"
  "registry r (s\<lparr>next_oid := b\<rparr>) = registry r s"
  "registry r (s\<lparr>ctor_calls := c\<rparr>) = registry r s"
  by (cases r; simp add: registry_def)+

lemma key_registered_updates [simp]:
  "key_registered (s\<lparr>instances := a\<rparr>) k = key_registered s k"
  "key_registered (s\<lparr>next_oid := b\<rparr>) k = key_registered s k"
  "key_registered (s\<lparr>ctor_calls := c\<rparr>) k = key_registered s k"
  by (simp_all add: key_registered_def)

lemma key_registered_prefix:
  "map_of (registry r s) n = Some c \<Longrightarrow> key_registered s (role_prefix r @ n)"
  unfolding key_registered_def
  by (cases r) (auto dest!: map_of_SomeD simp: role_prefix_def intro!: image_eqI [where x = "(n, c)"])

lemma get_leaf:
  assumes "r = LLM \<or> r = Embeddings \<or> r = VectorStore"
  shows "get_service cfg r name s =
    (let n = effective_name cfg r name; k = role_prefix r @ n
     in case map_of (instances s) k of
          Some i \<Rightarrow> (Inr i, s)
        | None \<Rightarrow>
            (case map_of (registry r s) n of
               None \<Rightarrow> (Inl (ValueError (role_label r) n (map fst (registry r s))), s)
             | Some c \<Rightarrow>
                 if init_raises c
                 then (Inl (init_error c),
                       s\<lparr>ctor_calls := ctor_calls s @ [(r, n)]\<rparr>)
                 else (Inr (Instance (next_oid s) c [] []),
                       s\<lparr>ctor_calls := ctor_calls s @ [(r, n)],
                         next_oid := Suc (next_oid s),
                         instances := AList.update k (Instance (next_oid s) c [] []) (instances s)\<rparr>)))"
  using assms
  by (auto simp: get_service_def get_llm_provider_def get_embeddings_service_def
      get_vector_store_def create_llm_provider_def create_embeddings_service_def
      create_vector_store_def instantiate_def effective_name_def role_prefix_def
      registry_def role_label_def py_or_idem Let_def split: option.splits)

lemma in_set_update:
  "(a, b) \<in> set (AList.update k v al) \<Longrightarrow> (a, b) = (k, v) \<or> (a, b) \<in> set al"
  by (induction al) (auto split: if_splits)

lemma cache_ok_update:
  assumes "cache_ok s" "key_registered s k" "oid i < n" "next_oid s \<le> n"
  shows "cache_ok (s\<lparr>ctor_calls := c, next_oid := n,
                      instances := AList.update k i (instances s)\<rparr>)"
  using assms unfolding cache_ok_def
  by (auto dest!: in_set_update)

lemma cache_ok_calls:
  "cache_ok s \<Longrightarrow> cache_ok (s\<lparr>ctor_calls := c\<rparr>)"
  unfolding cache_ok_def by auto

lemma get_cached:
  "map_of (instances s) (cache_key cfg r name) = Some i \<Longrightarrow> get_service cfg r name s = (Inr i, s)"
  by (cases r)
     (simp_all add: get_service_def cache_key_def role_prefix_def effective_name_def
        get_llm_provider_def get_embeddings_service_def get_vector_store_def
        get_retrieval_strategy_def get_chat_service_def)

lemma leaf_registry:
  assumes "r = LLM \<or> r = Embeddings \<or> r = VectorStore"
    and "get_service cfg r name s = (res, s')"
  shows "registry q s' = registry q s"
  using assms(2) unfolding get_leaf [OF assms(1)]
  by (auto simp: Let_def split: option.splits if_splits)

lemma leaf_next_oid:
  assumes "r = LLM \<or> r = Embeddings \<or> r = VectorStore"
    and "get_service cfg r name s = (res, s')"
  shows "next_oid s \<le> next_oid s'"
  using assms(2) unfolding get_leaf [OF assms(1)]
  by (auto simp: Let_def split: option.splits if_splits)

lemma leaf_cache_ok:
  assumes "r = LLM \<or> r = Embeddings \<or> r = VectorStore"
    and "get_service cfg r name s = (res, s')" and "cache_ok s"
  shows "cache_ok s'"
  using assms(2,3) unfolding get_leaf [OF assms(1)]
  by (auto simp: Let_def cache_ok_calls split: option.splits if_splits
      intro!: cache_ok_update key_registered_prefix)

lemma leaf_cached_after:
  assumes "r = LLM \<or> r = Embeddings \<or> r = VectorStore"
    and "get_service cfg r name s = (Inr i, s')"
  shows "map_of (instances s') (cache_key cfg r name) = Some i"
  using assms(2) unfolding get_leaf [OF assms(1)]
  by (auto simp: Let_def cache_key_def update_conv' split: option.splits if_splits)

lemma leaf_fresh:
  assumes "r = LLM \<or> r = Embeddings \<or> r = VectorStore"
    and "get_service cfg r name s = (Inr i, s')"
    and "map_of (instances s) (cache_key cfg r name) = None"
  shows "next_oid s \<le> oid i \<and> oid i < next_oid s'
         \<and> ctor_calls s' = ctor_calls s @ [(r, effective_name cfg r name)]"
  using assms(2,3) unfolding get_leaf [OF assms(1)]
  by (auto simp: Let_def cache_key_def split: option.splits if_splits)

lemma leaf_calls:
  assumes "r = LLM \<or> r = Embeddings \<or> r = VectorStore"
    and "get_service cfg r name s = (res, s')"
  shows "ctor_calls s' = ctor_calls s
         \<or> ctor_calls s' = ctor_calls s @ [(r, effective_name cfg r name)]"
  using assms(2) unfolding get_leaf [OF assms(1)]
  by (auto simp: Let_def split: option.splits if_splits)

lemma leaf_other_keys:
  assumes "r = LLM \<or> r = Embeddings \<or> r = VectorStore"
    and "get_service cfg r name s = (res, s')" and "k \<noteq> cache_key cfg r name"
  shows "map_of (instances s') k = map_of (instances s) k"
  using assms(2,3) unfolding get_leaf [OF assms(1)]
  by (auto simp: Let_def cache_key_def update_conv' split: option.splits if_splits)

lemma leaf_unknown:
  assumes "r = LLM \<or> r = Embeddings \<or> r = VectorStore"
    and "map_of (registry r s) (effective_name cfg r name) = None"
    and "map_of (instances s) (cache_key cfg r name) = None"
  shows "get_service cfg r name s =
           (Inl (ValueError (role_label r) (effective_name cfg r name) (map fst (registry r s))), s)"
  using assms(2,3) unfolding get_leaf [OF assms(1)]
  by (auto simp: Let_def cache_key_def)

lemma trans_ok_refl: "trans_ok s s"
  by (simp add: trans_ok_def)

lemma trans_ok_trans: "trans_ok s s1 \<Longrightarrow> trans_ok s1 s2 \<Longrightarrow> trans_ok s s2"
  by (auto simp: trans_ok_def)

lemma trans_ok_leaf:
  assumes "r = LLM \<or> r = Embeddings \<or> r = VectorStore"
    and "get_service cfg r name s = (res, s')"
  shows "trans_ok s s'"
  unfolding trans_ok_def
  using leaf_registry [OF assms] leaf_next_oid [OF assms] leaf_cache_ok [OF assms]
  by blast

lemma instantiate_cases:
  "instantiate r n c kw deps s = (res, s') \<Longrightarrow>
     (res = Inl (init_error c) \<and> init_raises c
        \<and> s' = s\<lparr>ctor_calls := ctor_calls s @ [(r, n)]\<rparr>)
     \<or> (res = Inr (Instance (next_oid s) c kw deps) \<and> \<not> init_raises c
        \<and> s' = s\<lparr>ctor_calls := ctor_calls s @ [(r, n)], next_oid := Suc (next_oid s)\<rparr>)"
  by (auto simp: instantiate_def Let_def split: if_splits)

lemma leaf_as_service:
  "get_llm_provider cfg x = get_service cfg LLM x"
  "get_embeddings_service cfg x = get_service cfg Embeddings x"
  "get_vector_store cfg x = get_service cfg VectorStore x"
  by (simp_all add: get_service_def fun_eq_iff)

lemma composite_as_service:
  "get_service cfg Retrieval name s = get_retrieval_strategy cfg (effective_name cfg Retrieval name) s"
  "get_service cfg Chat name s = get_chat_service cfg (effective_name cfg Chat name) s"
  by (simp_all add: get_service_def)

lemma get_retrieval_build:
  "get_service cfg Retrieval name s =
     build_with (get_service cfg VectorStore None) (get_service cfg Embeddings None)
       ''vector_store'' ''embeddings_service'' Retrieval (effective_name cfg Retrieval name) s"
proof -
  have reg: "retrieval_strategies s2 = retrieval_strategies s"
    if "get_service cfg VectorStore None s = (r1, s1)"
      and "get_service cfg Embeddings None s1 = (r2, s2)" for r1 s1 r2 s2
    using leaf_registry [OF _ that(1), of Retrieval] leaf_registry [OF _ that(2), of Retrieval]
    by (simp add: registry_def)
  show ?thesis
    unfolding build_with_def composite_as_service get_retrieval_strategy_def
      create_retrieval_strategy_def leaf_as_service
    by (auto simp: Let_def role_prefix_def registry_def role_label_def
        dest: reg split: option.splits prod.splits sum.splits)
qed

lemma run_ok_refl: "run_ok A s s"
  by (simp add: run_ok_def trans_ok_refl)

lemma run_ok_trans:
  assumes "run_ok A s s1" and "run_ok B s1 s2"
  shows "run_ok (A \<union> B) s s2"
proof -
  from assms(1) obtain xs where xs: "ctor_calls s1 = ctor_calls s @ xs" "fst ` set xs \<subseteq> A"
    and t1: "trans_ok s s1"
    by (auto simp: run_ok_def)
  from assms(2) obtain ys where ys: "ctor_calls s2 = ctor_calls s1 @ ys" "fst ` set ys \<subseteq> B"
    and t2: "trans_ok s1 s2"
    by (auto simp: run_ok_def)
  have "ctor_calls s2 = ctor_calls s @ (xs @ ys)"
    using xs(1) ys(1) by simp
  moreover have "fst ` set (xs @ ys) \<subseteq> A \<union> B"
    using xs(2) ys(2) by auto
  ultimately show ?thesis
    unfolding run_ok_def using trans_ok_trans [OF t1 t2] by blast
qed

lemma run_ok_mono: "run_ok A s s' \<Longrightarrow> A \<subseteq> B \<Longrightarrow> run_ok B s s'"
  unfolding run_ok_def by blast

lemma run_ok_leaf:
  assumes "r = LLM \<or> r = Embeddings \<or> r = VectorStore"
    and "get_service cfg r name s = (res, s')"
  shows "run_ok {r} s s'"
proof -
  from leaf_calls [OF assms]
  have "\<exists>xs. ctor_calls s' = ctor_calls s @ xs \<and> fst ` set xs \<subseteq> {r}"
  proof
    assume "ctor_calls s' = ctor_calls s"
    then have "ctor_calls s' = ctor_calls s @ [] \<and> fst ` set [] \<subseteq> {r}" by simp
    then show ?thesis by blast
  next
    assume "ctor_calls s' = ctor_calls s @ [(r, effective_name cfg r name)]"
    then have "ctor_calls s' = ctor_calls s @ [(r, effective_name cfg r name)]
               \<and> fst ` set [(r, effective_name cfg r name)] \<subseteq> {r}" by simp
    then show ?thesis by blast
  qed
  with trans_ok_leaf [OF assms] show ?thesis
    by (simp add: run_ok_def)
qed

lemma run_ok_instantiate:
  assumes "instantiate r n c kw deps s = (res, s')"
  shows "run_ok {r} s s'"
proof -
  from instantiate_cases [OF assms]
  have calls: "ctor_calls s' = ctor_calls s @ [(r, n)]"
    and reg: "\<forall>q. registry q s' = registry q s"
    and oid: "next_oid s \<le> next_oid s'"
    and inst: "instances s' = instances s"
    by auto
  have "cache_ok s \<Longrightarrow> cache_ok s'"
    using oid inst unfolding cache_ok_def
    using instantiate_cases [OF assms] by (auto simp: key_registered_def)
  moreover have "fst ` set [(r, n)] \<subseteq> {r}" by simp
  ultimately show ?thesis
    unfolding run_ok_def trans_ok_def using calls reg oid by blast
qed

lemma run_ok_cache:
  assumes "run_ok A s s'" and "map_of (registry r s) n = Some c" and "oid i < next_oid s'"
  shows "run_ok A s (s'\<lparr>instances := AList.update (role_prefix r @ n) i (instances s')\<rparr>)"
proof -
  let ?t = "s'\<lparr>instances := AList.update (role_prefix r @ n) i (instances s')\<rparr>"
  from assms(1) have t: "trans_ok s s'"
    and calls: "\<exists>xs. ctor_calls s' = ctor_calls s @ xs \<and> fst ` set xs \<subseteq> A"
    by (auto simp: run_ok_def)
  have reg: "\<forall>q. registry q s' = registry q s"
    using t by (simp add: trans_ok_def)
  have "cache_ok ?t" if "cache_ok s"
  proof -
    from that t have ok: "cache_ok s'" by (simp add: trans_ok_def)
    have "map_of (registry r s') n = Some c" using reg assms(2) by simp
    then have "key_registered s' (role_prefix r @ n)" by (rule key_registered_prefix)
    from cache_ok_update [OF ok this assms(3) le_refl, of "ctor_calls s'"]
    show ?thesis by simp
  qed
  then have "trans_ok s ?t"
    using t by (simp add: trans_ok_def)
  then show ?thesis
    using calls by (simp add: run_ok_def)
qed

lemma build_with_cached:
  "map_of (instances s) (role_prefix r @ n) = Some i \<Longrightarrow>
     build_with g1 g2 l1 l2 r n s = (Inr i, s)"
  by (simp add: build_with_def)

lemma build_with_unknown:
  "map_of (instances s) (role_prefix r @ n) = None \<Longrightarrow> map_of (registry r s) n = None \<Longrightarrow>
     build_with g1 g2 l1 l2 r n s
       = (Inl (ValueError (role_label r) n (map fst (registry r s))), s)"
  by (simp add: build_with_def)

lemma getter_okD: "getter_ok A g \<Longrightarrow> g t = (res, t') \<Longrightarrow> run_ok A t t'"
  unfolding getter_ok_def by (metis snd_conv)

text \<open>What a run that finds the key uncached and the name registered can do.\<close>

lemma build_with_uncached:
  assumes ga: "getter_ok A ga"
    and gb: "getter_ok B gb"
    and unc: "map_of (instances s) (role_prefix r @ n) = None"
    and reg: "map_of (registry r s) n = Some c"
    and run: "build_with ga gb l1 l2 r n s = (res, s')"
  shows "run_ok (A \<union> B) s s' \<and> (\<exists>e. res = Inl e)
       \<or> (\<exists>t. run_ok (A \<union> B) s t \<and> init_raises c \<and> (\<exists>e. res = Inl e)
              \<and> s' = t\<lparr>ctor_calls := ctor_calls t @ [(r, n)]\<rparr>)
       \<or> (\<exists>t a b. run_ok (A \<union> B) s t \<and> \<not> init_raises c
              \<and> res = Inr (Instance (next_oid t) c [] [(l1, a), (l2, b)])
              \<and> s' = t\<lparr>ctor_calls := ctor_calls t @ [(r, n)], next_oid := Suc (next_oid t),
                        instances := AList.update (role_prefix r @ n)
                          (Instance (next_oid t) c [] [(l1, a), (l2, b)]) (instances t)\<rparr>)"
proof -
  obtain r1 s1 where e1: "ga s = (r1, s1)" by (cases "ga s")
  have ok1: "run_ok A s s1" by (rule getter_okD [OF ga e1])
  show ?thesis
  proof (cases r1)
    case (Inl e)
    with run unc reg e1 have "res = Inl e" "s' = s1"
      by (simp_all add: build_with_def)
    with ok1 show ?thesis
      using run_ok_mono [of A s s1 "A \<union> B"] by simp
  next
    case a: (Inr a)
    obtain r2 s2 where e2: "gb s1 = (r2, s2)" by (cases "gb s1")
    have ok2: "run_ok B s1 s2" by (rule getter_okD [OF gb e2])
    have ok12: "run_ok (A \<union> B) s s2" by (rule run_ok_trans [OF ok1 ok2])
    show ?thesis
    proof (cases r2)
      case (Inl e)
      with run unc reg e1 a e2 have "res = Inl e" "s' = s2"
        by (simp_all add: build_with_def)
      with ok12 show ?thesis by simp
    next
      case b: (Inr b)
      show ?thesis
      proof (cases "init_raises c")
        case True
        with run unc reg e1 a e2 b
        have "res = Inl (init_error c)"
          "s' = s2\<lparr>ctor_calls := ctor_calls s2 @ [(r, n)]\<rparr>"
          by (simp_all add: build_with_def instantiate_def)
        with ok12 True show ?thesis by blast
      next
        case False
        with run unc reg e1 a e2 b
        have "res = Inr (Instance (next_oid s2) c [] [(l1, a), (l2, b)])"
          "s' = s2\<lparr>ctor_calls := ctor_calls s2 @ [(r, n)], next_oid := Suc (next_oid s2),
                   instances := AList.update (role_prefix r @ n)
                     (Instance (next_oid s2) c [] [(l1, a), (l2, b)]) (instances s2)\<rparr>"
          by (simp_all add: build_with_def instantiate_def)
        with ok12 False show ?thesis by blast
      qed
    qed
  qed
qed

lemma run_okI:
  "trans_ok s s' \<Longrightarrow> ctor_calls s' = ctor_calls s @ xs \<Longrightarrow> fst ` set xs \<subseteq> A \<Longrightarrow> run_ok A s s'"
  unfolding run_ok_def by blast

lemma run_ok_add_call:
  assumes "run_ok A s t"
  shows "run_ok (A \<union> {r}) s (t\<lparr>ctor_calls := ctor_calls t @ [(r, n)]\<rparr>)"
proof -
  from assms obtain xs where xs: "ctor_calls t = ctor_calls s @ xs" "fst ` set xs \<subseteq> A"
    and t: "trans_ok s t"
    unfolding run_ok_def by blast
  have 1: "trans_ok s (t\<lparr>ctor_calls := ctor_calls t @ [(r, n)]\<rparr>)"
    using t by (auto simp: trans_ok_def cache_ok_calls)
  have 2: "ctor_calls (t\<lparr>ctor_calls := ctor_calls t @ [(r, n)]\<rparr>) = ctor_calls s @ (xs @ [(r, n)])"
    using xs(1) by simp
  have 3: "fst ` set (xs @ [(r, n)]) \<subseteq> A \<union> {r}"
    using xs(2) by auto
  show ?thesis by (rule run_okI [OF 1 2 3])
qed

lemma run_ok_add_object:
  assumes "run_ok A s t" and "map_of (registry r s) n = Some c" and "oid i = next_oid t"
  shows "run_ok (A \<union> {r}) s
           (t\<lparr>ctor_calls := ctor_calls t @ [(r, n)], next_oid := Suc (next_oid t),
              instances := AList.update (role_prefix r @ n) i (instances t)\<rparr>)"
proof -
  let ?u = "t\<lparr>ctor_calls := ctor_calls t @ [(r, n)], next_oid := Suc (next_oid t)\<rparr>"
  have "instantiate r n (c\<lparr>init_raises := False\<rparr>) [] [] t
          = (Inr (Instance (next_oid t) (c\<lparr>init_raises := False\<rparr>) [] []), ?u)"
    by (simp add: instantiate_def)
  from run_ok_instantiate [OF this] have "run_ok {r} t ?u" .
  from run_ok_trans [OF assms(1) this] have u: "run_ok (A \<union> {r}) s ?u" .
  have "oid i < next_oid ?u" using assms(3) by simp
  from run_ok_cache [OF u assms(2) this] show ?thesis by simp
qed

lemma build_with_run_ok:
  assumes g1: "getter_ok A1 g1"
    and g2: "getter_ok A2 g2"
    and run: "build_with g1 g2 l1 l2 r n s = (res, s')"
  shows "run_ok (A1 \<union> A2 \<union> {r}) s s'"
proof (cases "map_of (instances s) (role_prefix r @ n)")
  case (Some i)
  with run have "s' = s" by (simp add: build_with_def)
  then show ?thesis by (simp add: run_ok_refl)
next
  case None
  show ?thesis
  proof (cases "map_of (registry r s) n")
    case N: None
    with None run have "s' = s" by (simp add: build_with_def)
    then show ?thesis by (simp add: run_ok_refl)
  next
    case (Some c)
    from build_with_uncached [OF g1 g2 None Some run]
    show ?thesis
    proof (elim disjE exE conjE)
      assume "run_ok (A1 \<union> A2) s s'"
      then show ?thesis by (rule run_ok_mono) blast
    next
      fix t assume "run_ok (A1 \<union> A2) s t"
        and "s' = t\<lparr>ctor_calls := ctor_calls t @ [(r, n)]\<rparr>"
      then show ?thesis using run_ok_add_call [of "A1 \<union> A2" s t r n] by simp
    next
      fix t a b
      assume t: "run_ok (A1 \<union> A2) s t"
        and s': "s' = t\<lparr>ctor_calls := ctor_calls t @ [(r, n)], next_oid := Suc (next_oid t),
                        instances := AList.update (role_prefix r @ n)
                          (Instance (next_oid t) c [] [(l1, a), (l2, b)]) (instances t)\<rparr>"
      have "oid (Instance (next_oid t) c [] [(l1, a), (l2, b)]) = next_oid t" by simp
      from run_ok_add_object [OF t Some this] show ?thesis using s' by simp
    qed
  qed
qed

lemma build_with_fresh:
  assumes g1: "getter_ok A1 g1"
    and g2: "getter_ok A2 g2"
    and unc: "map_of (instances s) (role_prefix r @ n) = None"
    and run: "build_with g1 g2 l1 l2 r n s = (Inr i, s')"
  shows "next_oid s \<le> oid i \<and> oid i < next_oid s'
         \<and> (\<exists>xs. ctor_calls s' = ctor_calls s @ xs @ [(r, n)] \<and> fst ` set xs \<subseteq> A1 \<union> A2)"
proof (cases "map_of (registry r s) n")
  case None
  with unc run show ?thesis by (simp add: build_with_def)
next
  case (Some c)
  from build_with_uncached [OF g1 g2 unc Some run]
  obtain t a b where t: "run_ok (A1 \<union> A2) s t"
    and i: "i = Instance (next_oid t) c [] [(l1, a), (l2, b)]"
    and s': "s' = t\<lparr>ctor_calls := ctor_calls t @ [(r, n)], next_oid := Suc (next_oid t),
                    instances := AList.update (role_prefix r @ n)
                      (Instance (next_oid t) c [] [(l1, a), (l2, b)]) (instances t)\<rparr>"
    by auto
  from t obtain xs where "ctor_calls t = ctor_calls s @ xs" "fst ` set xs \<subseteq> A1 \<union> A2"
    "next_oid s \<le> next_oid t"
    by (auto simp: run_ok_def trans_ok_def)
  with i s' show ?thesis by simp
qed

lemma build_with_calls:
  assumes g1: "getter_ok A1 g1"
    and g2: "getter_ok A2 g2"
    and run: "build_with g1 g2 l1 l2 r n s = (res, s')"
  shows "\<exists>xs. fst ` set xs \<subseteq> A1 \<union> A2
           \<and> (ctor_calls s' = ctor_calls s @ xs \<or> ctor_calls s' = ctor_calls s @ xs @ [(r, n)])"
proof -
  have base: ?thesis if "s' = s"
  proof -
    have "fst ` set ([] :: (role \<times> string) list) \<subseteq> A1 \<union> A2 \<and> ctor_calls s' = ctor_calls s @ []"
      using that by simp
    then show ?thesis by blast
  qed
  have ext: ?thesis if "run_ok (A1 \<union> A2) s t"
    and "ctor_calls s' = ctor_calls t \<or> ctor_calls s' = ctor_calls t @ [(r, n)]" for t
  proof -
    from that(1) obtain xs where "ctor_calls t = ctor_calls s @ xs" "fst ` set xs \<subseteq> A1 \<union> A2"
      by (auto simp: run_ok_def)
    with that(2) have "fst ` set xs \<subseteq> A1 \<union> A2
      \<and> (ctor_calls s' = ctor_calls s @ xs \<or> ctor_calls s' = ctor_calls s @ xs @ [(r, n)])"
      by auto
    then show ?thesis by blast
  qed
  show ?thesis
  proof (cases "map_of (instances s) (role_prefix r @ n)")
    case (Some i)
    with run have "s' = s" by (simp add: build_with_def)
    then show ?thesis by (rule base)
  next
    case None
    show ?thesis
    proof (cases "map_of (registry r s) n")
      case N: None
      with None run have "s' = s" by (simp add: build_with_def)
      then show ?thesis by (rule base)
    next
      case (Some c)
      from build_with_uncached [OF g1 g2 None Some run]
      show ?thesis
      proof (elim disjE exE conjE)
        assume "run_ok (A1 \<union> A2) s s'"
        then show ?thesis by (rule ext) simp
      next
        fix t assume "run_ok (A1 \<union> A2) s t"
          and "s' = t\<lparr>ctor_calls := ctor_calls t @ [(r, n)]\<rparr>"
        then show ?thesis by (intro ext [of t]) simp_all
      next
        fix t a b
        assume "run_ok (A1 \<union> A2) s t"
          and "s' = t\<lparr>ctor_calls := ctor_calls t @ [(r, n)], next_oid := Suc (next_oid t),
                        instances := AList.update (role_prefix r @ n)
                          (Instance (next_oid t) c [] [(l1, a), (l2, b)]) (instances t)\<rparr>"
        then show ?thesis by (intro ext [of t]) simp_all
      qed
    qed
  qed
qed

lemma build_with_cached_after:
  assumes "build_with g1 g2 l1 l2 r n s = (Inr i, s')"
  shows "map_of (instances s') (role_prefix r @ n) = Some i"
proof (cases "map_of (instances s) (role_prefix r @ n)")
  case (Some j)
  with assms show ?thesis by (simp add: build_with_def)
next
  case None
  with assms show ?thesis
    by (auto simp: build_with_def instantiate_def update_conv'
        split: option.splits prod.splits sum.splits if_splits)
qed

lemma getter_ok_leaf:
  assumes "r = LLM \<or> r = Embeddings \<or> r = VectorStore"
  shows "getter_ok {r} (get_service cfg r name)"
  unfolding getter_ok_def
proof
  fix t
  obtain res t' where e: "get_service cfg r name t = (res, t')"
    by (cases "get_service cfg r name t")
  from run_ok_leaf [OF assms e] show "run_ok {r} t (snd (get_service cfg r name t))"
    using e by simp
qed

lemma getter_ok_mono: "getter_ok A g \<Longrightarrow> A \<subseteq> B \<Longrightarrow> getter_ok B g"
  unfolding getter_ok_def using run_ok_mono by blast

lemma getter_ok_build_with:
  assumes "getter_ok A1 g1" and "getter_ok A2 g2"
  shows "getter_ok (A1 \<union> A2 \<union> {r}) (build_with g1 g2 l1 l2 r n)"
  unfolding getter_ok_def
proof
  fix t
  obtain res t' where e: "build_with g1 g2 l1 l2 r n t = (res, t')"
    by (cases "build_with g1 g2 l1 l2 r n t")
  from build_with_run_ok [OF assms e]
  show "run_ok (A1 \<union> A2 \<union> {r}) t (snd (build_with g1 g2 l1 l2 r n t))"
    using e by simp
qed

lemma getter_ok_retrieval:
  "getter_ok {VectorStore, Embeddings, Retrieval} (get_service cfg Retrieval name)"
proof -
  have "getter_ok ({VectorStore} \<union> {Embeddings} \<union> {Retrieval})
          (build_with (get_service cfg VectorStore None) (get_service cfg Embeddings None)
             ''vector_store'' ''embeddings_service'' Retrieval (effective_name cfg Retrieval name))"
    by (rule getter_ok_build_with) (simp_all add: getter_ok_leaf)
  moreover have "get_service cfg Retrieval name
      = build_with (get_service cfg VectorStore None) (get_service cfg Embeddings None)
             ''vector_store'' ''embeddings_service'' Retrieval (effective_name cfg Retrieval name)"
    by (rule ext) (rule get_retrieval_build)
  ultimately show ?thesis
    by (simp add: insert_commute)
qed

lemma get_chat_build:
  "get_service cfg Chat name s =
     build_with (get_service cfg LLM None) (get_service cfg Retrieval None)
       ''llm_provider'' ''retrieval_strategy'' Chat (effective_name cfg Chat name) s"
proof -
  have sim: "get_retrieval_strategy cfg ''similarity'' = get_service cfg Retrieval None"
    by (simp add: fun_eq_iff get_service_def effective_name_def)
  have reg: "chat_services s2 = chat_services s"
    if "get_service cfg LLM None s = (r1, s1)"
      and "get_service cfg Retrieval None s1 = (r2, s2)" for r1 s1 r2 s2
  proof -
    have "getter_ok {LLM} (get_service cfg LLM None)"
      by (simp add: getter_ok_leaf)
    from getter_okD [OF this that(1)]
    have "registry Chat s1 = registry Chat s"
      by (simp add: run_ok_def trans_ok_def)
    moreover from getter_okD [OF getter_ok_retrieval that(2)]
    have "registry Chat s2 = registry Chat s1"
      by (simp add: run_ok_def trans_ok_def)
    ultimately show ?thesis by (simp add: registry_def)
  qed
  have "get_chat_service cfg n s =
     build_with (get_service cfg LLM None) (get_service cfg Retrieval None)
       ''llm_provider'' ''retrieval_strategy'' Chat n s" for n
    unfolding get_chat_service_def create_chat_service_def leaf_as_service sim build_with_def
    by (auto simp: Let_def role_prefix_def registry_def role_label_def
        dest: reg split: option.splits prod.splits sum.splits)
  then show ?thesis
    by (simp only: composite_as_service(2))
qed

lemma getter_ok_chat: "getter_ok UNIV (get_service cfg Chat name)"
proof -
  have "getter_ok ({LLM} \<union> {VectorStore, Embeddings, Retrieval} \<union> {Chat})
          (build_with (get_service cfg LLM None) (get_service cfg Retrieval None)
             ''llm_provider'' ''retrieval_strategy'' Chat (effective_name cfg Chat name))"
    by (rule getter_ok_build_with) (simp_all add: getter_ok_leaf getter_ok_retrieval)
  moreover have "get_service cfg Chat name
      = build_with (get_service cfg LLM None) (get_service cfg Retrieval None)
             ''llm_provider'' ''retrieval_strategy'' Chat (effective_name cfg Chat name)"
    by (rule ext) (rule get_chat_build)
  ultimately show ?thesis
    using getter_ok_mono by fastforce
qed

lemma get_trans_ok:
  assumes "get_service cfg r name s = (res, s')"
  shows "trans_ok s s'"
proof -
  have "getter_ok UNIV (get_service cfg r name)"
  proof (cases r)
    case Retrieval
    then show ?thesis using getter_ok_mono [OF getter_ok_retrieval] by simp
  next
    case Chat
    then show ?thesis by (simp add: getter_ok_chat)
  qed (use getter_ok_mono [OF getter_ok_leaf] in simp_all)
  from getter_okD [OF this assms] show ?thesis by (simp add: run_ok_def)
qed

lemma get_composite:
  assumes "r = Retrieval \<or> r = Chat"
  shows "\<exists>g1 g2 l1 l2 A1 A2. getter_ok A1 g1 \<and> getter_ok A2 g2 \<and> r \<notin> A1 \<union> A2
           \<and> (\<forall>name s. get_service cfg r name s
                 = build_with g1 g2 l1 l2 r (effective_name cfg r name) s)"
  using assms
proof
  assume r: "r = Retrieval"
  have "getter_ok {VectorStore} (get_service cfg VectorStore None)"
    "getter_ok {Embeddings} (get_service cfg Embeddings None)"
    by (simp_all add: getter_ok_leaf)
  moreover have "r \<notin> {VectorStore} \<union> {Embeddings}" using r by simp
  moreover have "\<forall>name s. get_service cfg r name s
      = build_with (get_service cfg VectorStore None) (get_service cfg Embeddings None)
          ''vector_store'' ''embeddings_service'' r (effective_name cfg r name) s"
    using r get_retrieval_build by simp
  ultimately show ?thesis by blast
next
  assume r: "r = Chat"
  have "getter_ok {LLM} (get_service cfg LLM None)"
    "getter_ok {VectorStore, Embeddings, Retrieval} (get_service cfg Retrieval None)"
    by (simp_all add: getter_ok_leaf getter_ok_retrieval)
  moreover have "r \<notin> {LLM} \<union> {VectorStore, Embeddings, Retrieval}" using r by simp
  moreover have "\<forall>name s. get_service cfg r name s
      = build_with (get_service cfg LLM None) (get_service cfg Retrieval None)
          ''llm_provider'' ''retrieval_strategy'' r (effective_name cfg r name) s"
    using r get_chat_build by simp
  ultimately show ?thesis by blast
qed

lemma role_cases:
  "(r = LLM \<or> r = Embeddings \<or> r = VectorStore) \<or> (r = Retrieval \<or> r = Chat)"
  by (cases r) simp_all

lemma get_cached_after:
  assumes "get_service cfg r name s = (Inr i, s')"
  shows "map_of (instances s') (cache_key cfg r name) = Some i"
  using role_cases [of r]
proof
  assume "r = LLM \<or> r = Embeddings \<or> r = VectorStore"
  from leaf_cached_after [OF this assms] show ?thesis .
next
  assume "r = Retrieval \<or> r = Chat"
  from get_composite [OF this, of cfg] obtain g1 g2 l1 l2
    where "get_service cfg r name s = build_with g1 g2 l1 l2 r (effective_name cfg r name) s"
    by blast
  with assms have "build_with g1 g2 l1 l2 r (effective_name cfg r name) s = (Inr i, s')"
    by simp
  from build_with_cached_after [OF this] show ?thesis
    by (simp add: cache_key_def)
qed

lemma get_fresh:
  assumes "get_service cfg r name s = (Inr i, s')"
    and "map_of (instances s) (cache_key cfg r name) = None"
  shows "next_oid s \<le> oid i \<and> oid i < next_oid s'
         \<and> (\<exists>xs. ctor_calls s' = ctor_calls s @ xs @ [(r, effective_name cfg r name)]
                \<and> r \<notin> fst ` set xs)"
  using role_cases [of r]
proof
  assume "r = LLM \<or> r = Embeddings \<or> r = VectorStore"
  from leaf_fresh [OF this assms]
  have "next_oid s \<le> oid i" "oid i < next_oid s'"
    "ctor_calls s' = ctor_calls s @ [] @ [(r, effective_name cfg r name)]
       \<and> r \<notin> fst ` set ([] :: (role \<times> string) list)"
    by simp_all
  then show ?thesis by blast
next
  assume "r = Retrieval \<or> r = Chat"
  from get_composite [OF this, of cfg] obtain g1 g2 l1 l2 A1 A2
    where g: "getter_ok A1 g1" "getter_ok A2 g2" "r \<notin> A1 \<union> A2"
      and e: "get_service cfg r name s = build_with g1 g2 l1 l2 r (effective_name cfg r name) s"
    by blast
  from e assms(1) have run: "build_with g1 g2 l1 l2 r (effective_name cfg r name) s = (Inr i, s')"
    by simp
  from assms(2) have unc: "map_of (instances s) (role_prefix r @ effective_name cfg r name) = None"
    by (simp add: cache_key_def)
  from build_with_fresh [OF g(1,2) unc run] g(3) show ?thesis by blast
qed

lemma get_calls:
  assumes "get_service cfg r name s = (res, s')"
  shows "\<exists>xs. r \<notin> fst ` set xs
           \<and> (ctor_calls s' = ctor_calls s @ xs
              \<or> ctor_calls s' = ctor_calls s @ xs @ [(r, effective_name cfg r name)])"
  using role_cases [of r]
proof
  assume "r = LLM \<or> r = Embeddings \<or> r = VectorStore"
  from leaf_calls [OF this assms]
  have "r \<notin> fst ` set ([] :: (role \<times> string) list)
        \<and> (ctor_calls s' = ctor_calls s @ []
           \<or> ctor_calls s' = ctor_calls s @ [] @ [(r, effective_name cfg r name)])"
    by simp
  then show ?thesis by blast
next
  assume "r = Retrieval \<or> r = Chat"
  from get_composite [OF this, of cfg] obtain g1 g2 l1 l2 A1 A2
    where g: "getter_ok A1 g1" "getter_ok A2 g2" "r \<notin> A1 \<union> A2"
      and e: "get_service cfg r name s = build_with g1 g2 l1 l2 r (effective_name cfg r name) s"
    by blast
  from e assms have run: "build_with g1 g2 l1 l2 r (effective_name cfg r name) s = (res, s')"
    by simp
  from build_with_calls [OF g(1,2) run] g(3) show ?thesis by blast
qed

lemma get_unknown:
  assumes "map_of (registry r s) (effective_name cfg r name) = None"
    and "map_of (instances s) (cache_key cfg r name) = None"
  shows "get_service cfg r name s =
           (Inl (ValueError (role_label r) (effective_name cfg r name) (map fst (registry r s))), s)"
  using role_cases [of r]
proof
  assume "r = LLM \<or> r = Embeddings \<or> r = VectorStore"
  from leaf_unknown [OF this assms] show ?thesis .
next
  assume "r = Retrieval \<or> r = Chat"
  from get_composite [OF this, of cfg] obtain g1 g2 l1 l2
    where e: "get_service cfg r name s = build_with g1 g2 l1 l2 r (effective_name cfg r name) s"
    by blast
  from assms(2) have unc: "map_of (instances s) (role_prefix r @ effective_name cfg r name) = None"
    by (simp add: cache_key_def)
  from build_with_unknown [OF unc assms(1)] e show ?thesis by simp
qed

lemma create_unknown:
  assumes "map_of (registry r s) (effective_name cfg r name) = None"
  shows "create_service cfg r name d1 d2 kw s =
           (Inl (ValueError (role_label r) (effective_name cfg r name) (map fst (registry r s))), s)"
  using assms
  by (cases r)
     (simp_all add: create_service_def create_llm_provider_def create_embeddings_service_def
        create_vector_store_def create_retrieval_strategy_def create_chat_service_def
        registry_def effective_name_def role_label_def)

lemma role_prefix_inj:
  "take (length (role_prefix q)) (role_prefix r @ n) = role_prefix q \<Longrightarrow> q = r"
  by (cases q; cases r; simp add: role_prefix_def)

lemma cached_registered:
  assumes "cache_ok s" and "map_of (instances s) (role_prefix r @ n) = Some i"
  shows "map_of (registry r s) n \<noteq> None \<and> oid i < next_oid s"
proof -
  from assms(2) have "(role_prefix r @ n, i) \<in> set (instances s)"
    by (rule map_of_SomeD)
  with assms(1) have oid: "oid i < next_oid s" and k: "key_registered s (role_prefix r @ n)"
    unfolding cache_ok_def by auto
  from k obtain q where q: "take (length (role_prefix q)) (role_prefix r @ n) = role_prefix q"
    "drop (length (role_prefix q)) (role_prefix r @ n) \<in> fst ` set (registry q s)"
    unfolding key_registered_def by blast
  from role_prefix_inj [OF q(1)] have "q = r" .
  with q(2) have "n \<in> fst ` set (registry r s)" by simp
  then have "map_of (registry r s) n \<noteq> None"
    by (simp add: map_of_eq_None_iff)
  with oid show ?thesis by simp
qed

section \<open>Registry: singletons, unknown names, clearing\<close>

lemma calls_of_absent: "r \<notin> fst ` set xs \<Longrightarrow> calls_of r xs = []"
  by (induction xs) (auto simp: calls_of_def)

lemma get_times_cached:
  "map_of (instances s) (cache_key cfg r name) = Some i \<Longrightarrow>
     get_times cfg r name k s = (replicate k (Inr i), s)"
  by (induction k) (simp_all add: get_cached)

text \<open>The equations that evaluate the factory on concrete registries.\<close>

lemmas factory_eval =
  get_service_def create_service_def get_llm_provider_def get_embeddings_service_def
  get_vector_store_def get_retrieval_strategy_def get_chat_service_def
  create_llm_provider_def create_embeddings_service_def create_vector_store_def
  create_retrieval_strategy_def create_chat_service_def instantiate_def
  register_llm_provider_def register_embeddings_service_def register_vector_store_def
  register_retrieval_strategy_def register_chat_service_def empty_factory_def
  stub_factory_def stub_class_def default_settings_def effective_name_def py_or_def
  clear_instances_def Let_def

subsection \<open>When a get returns\<close>

lemma prefix_differs:
  "q \<noteq> r \<Longrightarrow> role_prefix q @ a \<noteq> role_prefix r @ b"
  by (cases q; cases r; simp add: role_prefix_def)

lemma leaf_get_iff:
  assumes "r = LLM \<or> r = Embeddings \<or> r = VectorStore"
  shows "(\<exists>i. fst (get_service cfg r name s) = Inr i) \<longleftrightarrow> leaf_obtainable cfg r name s"
  unfolding get_leaf [OF assms]
  by (auto simp: Let_def leaf_obtainable_def cached_def constructs_def cache_key_def
      split: option.splits)

lemma leaf_registry_frame:
  assumes "r = LLM \<or> r = Embeddings \<or> r = VectorStore"
  shows "registry p (snd (get_service cfg r name s)) = registry p s"
proof -
  obtain res s' where e: "get_service cfg r name s = (res, s')"
    by (cases "get_service cfg r name s")
  from leaf_registry [OF assms e, of p] e show ?thesis by simp
qed

lemma leaf_keys_frame:
  assumes "r = LLM \<or> r = Embeddings \<or> r = VectorStore" and "q \<noteq> r"
  shows "map_of (instances (snd (get_service cfg r name s))) (role_prefix q @ n)
           = map_of (instances s) (role_prefix q @ n)"
proof -
  obtain res s' where e: "get_service cfg r name s = (res, s')"
    by (cases "get_service cfg r name s")
  have k: "role_prefix q @ n \<noteq> cache_key cfg r name"
    using assms(2) by (simp add: cache_key_def prefix_differs)
  from leaf_other_keys [OF assms(1) e k] e show ?thesis by simp
qed

lemma leaf_obtainable_frame:
  assumes "r = LLM \<or> r = Embeddings \<or> r = VectorStore" and "q \<noteq> r"
  shows "leaf_obtainable cfg q name' (snd (get_service cfg r name s))
           = leaf_obtainable cfg q name' s"
  by (simp add: leaf_obtainable_def cached_def constructs_def cache_key_def
      leaf_registry_frame [OF assms(1)] leaf_keys_frame [OF assms])

lemma strategy_obtainable_frame:
  "strategy_obtainable cfg name' (snd (get_service cfg LLM name s))
     = strategy_obtainable cfg name' s"
proof -
  have l: "LLM = LLM \<or> LLM = Embeddings \<or> LLM = VectorStore" by simp
  have d: "Retrieval \<noteq> LLM" "VectorStore \<noteq> LLM" "Embeddings \<noteq> LLM" by simp_all
  show ?thesis
    by (simp add: strategy_obtainable_def cached_def constructs_def cache_key_def
        leaf_registry_frame [OF l] leaf_keys_frame [OF l d(1)]
        leaf_obtainable_frame [OF l d(2)] leaf_obtainable_frame [OF l d(3)])
qed

lemma build_with_iff:
  assumes "map_of (instances s) (role_prefix r @ n) = None"
  shows "(\<exists>i. fst (build_with g1 g2 l1 l2 r n s) = Inr i) \<longleftrightarrow>
         (constructs r n s \<and> (\<exists>a. fst (g1 s) = Inr a)
          \<and> (\<exists>b. fst (g2 (snd (g1 s))) = Inr b))"
proof (cases "map_of (registry r s) n")
  case None
  with assms show ?thesis
    by (simp add: build_with_def constructs_def)
next
  case (Some c)
  obtain x s1 where g1: "g1 s = (x, s1)" by (cases "g1 s")
  obtain y s2 where g2: "g2 s1 = (y, s2)" by (cases "g2 s1")
  show ?thesis
    using assms Some g1 g2
    by (cases x; cases y; simp add: build_with_def constructs_def instantiate_def Let_def)
qed

lemma strategy_get_iff:
  "(\<exists>i. fst (get_service cfg Retrieval name s) = Inr i) \<longleftrightarrow> strategy_obtainable cfg name s"
proof (cases "map_of (instances s) (cache_key cfg Retrieval name)")
  case (Some i)
  from get_cached [OF Some] Some show ?thesis
    by (simp add: strategy_obtainable_def cached_def)
next
  case None
  then have unc: "map_of (instances s)
      (role_prefix Retrieval @ effective_name cfg Retrieval name) = None"
    by (simp add: cache_key_def)
  have l: "VectorStore = LLM \<or> VectorStore = Embeddings \<or> VectorStore = VectorStore"
    "Embeddings = LLM \<or> Embeddings = Embeddings \<or> Embeddings = VectorStore"
    by simp_all
  have d: "Embeddings \<noteq> VectorStore" by simp
  show ?thesis
    unfolding get_retrieval_build build_with_iff [OF unc]
    using None
    by (simp add: leaf_get_iff [OF l(1)] leaf_get_iff [OF l(2)]
        leaf_obtainable_frame [OF l(1) d] strategy_obtainable_def cached_def)
qed

lemma chat_get_iff:
  "(\<exists>i. fst (get_service cfg Chat name s) = Inr i) \<longleftrightarrow> chat_obtainable cfg name s"
proof (cases "map_of (instances s) (cache_key cfg Chat name)")
  case (Some i)
  from get_cached [OF Some] Some show ?thesis
    by (simp add: chat_obtainable_def cached_def)
next
  case None
  then have unc: "map_of (instances s) (role_prefix Chat @ effective_name cfg Chat name) = None"
    by (simp add: cache_key_def)
  have l: "LLM = LLM \<or> LLM = Embeddings \<or> LLM = VectorStore"
    by simp
  show ?thesis
    unfolding get_chat_build build_with_iff [OF unc]
    using None
    by (simp add: leaf_get_iff [OF l] strategy_get_iff strategy_obtainable_frame
        chat_obtainable_def cached_def)
qed

lemma get_returns_iff:
  "(\<exists>i. fst (get_service cfg r name s) = Inr i) \<longleftrightarrow> obtainable cfg r name s"
  by (cases r) (simp_all add: obtainable_def leaf_get_iff strategy_get_iff chat_get_iff)

lemma get_obtainable:
  assumes "obtainable cfg r name s"
  obtains i s1 where "get_service cfg r name s = (Inr i, s1)"
proof -
  from assms obtain i where "fst (get_service cfg r name s) = Inr i"
    unfolding get_returns_iff [symmetric] ..
  then have "get_service cfg r name s = (Inr i, snd (get_service cfg r name s))"
    by (metis prod.collapse)
  then show ?thesis ..
qed

subsection \<open>Repeated gets, unknown names, clearing\<close>

text \<open>
  C1, as claimed: for every name with a registered constructor, repeated \<open>get\<close> calls
  return the cached object and call the constructor at most once. Not so when the
  registered constructor raises: nothing is cached, and each of two \<open>get\<close> calls
  invokes the constructor again and raises.
\<close>

theorem get_retries_raising_constructor:
  "map_of (registry LLM
       (register_llm_provider ''openai''
          \<lparr>class_name = ''LLM'', init_raises = True, init_error = ConstructorError ''LLM'',
           connection = ProbeTrue\<rparr> empty_factory)) ''openai''
     = Some \<lparr>class_name = ''LLM'', init_raises = True, init_error = ConstructorError ''LLM'',
             connection = ProbeTrue\<rparr>
   \<and> fst (get_times default_settings LLM None 2
       (register_llm_provider ''openai''
          \<lparr>class_name = ''LLM'', init_raises = True, init_error = ConstructorError ''LLM'',
           connection = ProbeTrue\<rparr> empty_factory))
     = [Inl (ConstructorError ''LLM''), Inl (ConstructorError ''LLM'')]
   \<and> ctor_calls (snd (get_times default_settings LLM None 2
       (register_llm_provider ''openai''
          \<lparr>class_name = ''LLM'', init_raises = True, init_error = ConstructorError ''LLM'',
           connection = ProbeTrue\<rparr> empty_factory)))
     = [(LLM, ''openai''), (LLM, ''openai'')]
   \<and> instances (snd (get_times default_settings LLM None 2
       (register_llm_provider ''openai''
          \<lparr>class_name = ''LLM'', init_raises = True, init_error = ConstructorError ''LLM'',
           connection = ProbeTrue\<rparr> empty_factory)))
     = []"
  by (simp add: factory_eval registry_def numeral_2_eq_2)

text \<open>
  C1, amended. A \<open>get\<close> for a role and name returns an object exactly when the object
  can be obtained: it is cached, or a class is registered under the name looked up, its
  constructor does not raise and, for the two roles with dependencies, each dependency
  can be obtained in turn. When it can, the \<open>get\<close> returns an object, the object is
  the one stored under the cache key, every further \<open>get\<close> for the same role and name
  (one, or any number \<open>k\<close> in a row) returns that same object and leaves the whole
  state, the record of constructor calls included, as it is; and the first call itself
  invoked the constructor of the role at most once, exactly once when the key was not
  cached before. When it cannot, the \<open>get\<close> raises.
\<close>

theorem get_returns_singleton:
  "(obtainable cfg r name s \<longrightarrow>
      (\<exists>i s1. get_service cfg r name s = (Inr i, s1)
         \<and> map_of (instances s1) (cache_key cfg r name) = Some i
         \<and> get_service cfg r name s1 = (Inr i, s1)
         \<and> get_times cfg r name k s1 = (replicate k (Inr i), s1)
         \<and> (\<exists>xs. ctor_calls s1 = ctor_calls s @ xs \<and> length (calls_of r xs) \<le> 1
                \<and> (map_of (instances s) (cache_key cfg r name) = None
                     \<longrightarrow> calls_of r xs = [(r, effective_name cfg r name)]))))
   \<and> (\<not> obtainable cfg r name s \<longrightarrow> (\<exists>e. fst (get_service cfg r name s) = Inl e))"
proof (intro conjI impI)
  assume "obtainable cfg r name s"
  then obtain i s1 where run: "get_service cfg r name s = (Inr i, s1)"
    by (rule get_obtainable)
  have cached: "map_of (instances s1) (cache_key cfg r name) = Some i"
    by (rule get_cached_after [OF run])
  have calls: "\<exists>xs. ctor_calls s1 = ctor_calls s @ xs \<and> length (calls_of r xs) \<le> 1
              \<and> (map_of (instances s) (cache_key cfg r name) = None
                   \<longrightarrow> calls_of r xs = [(r, effective_name cfg r name)])"
  proof (cases "map_of (instances s) (cache_key cfg r name)")
    case None
    from get_fresh [OF run None] obtain xs
      where xs: "ctor_calls s1 = ctor_calls s @ xs @ [(r, effective_name cfg r name)]"
        "r \<notin> fst ` set xs"
      by blast
    have "calls_of r (xs @ [(r, effective_name cfg r name)]) = [(r, effective_name cfg r name)]"
      using calls_of_absent [OF xs(2)] by (simp add: calls_of_def)
    with xs(1) show ?thesis by force
  next
    case (Some j)
    from get_cached [OF Some] run have "s1 = s" by simp
    then have "ctor_calls s1 = ctor_calls s @ [] \<and> length (calls_of r []) \<le> 1"
      by (simp add: calls_of_def)
    with Some show ?thesis by force
  qed
  from run cached get_cached [OF cached] get_times_cached [OF cached, where k = k] calls
  show "\<exists>i s1. get_service cfg r name s = (Inr i, s1)
         \<and> map_of (instances s1) (cache_key cfg r name) = Some i
         \<and> get_service cfg r name s1 = (Inr i, s1)
         \<and> get_times cfg r name k s1 = (replicate k (Inr i), s1)
         \<and> (\<exists>xs. ctor_calls s1 = ctor_calls s @ xs \<and> length (calls_of r xs) \<le> 1
                \<and> (map_of (instances s) (cache_key cfg r name) = None
                     \<longrightarrow> calls_of r xs = [(r, effective_name cfg r name)]))"
    by - (rule exI [of _ i], rule exI [of _ s1], intro conjI, assumption+)
next
  assume "\<not> obtainable cfg r name s"
  then have "\<not> (\<exists>i. fst (get_service cfg r name s) = Inr i)"
    by (simp add: get_returns_iff)
  then show "\<exists>e. fst (get_service cfg r name s) = Inl e"
    by (cases "fst (get_service cfg r name s)") auto
qed

theorem get_returns_singleton_witness:
  "obtainable default_settings LLM None stub_factory
   \<and> fst (get_service default_settings LLM None stub_factory)
     = Inr (Instance 0 (stub_class ''LLM'') [] [])
   \<and> fst (get_service default_settings LLM None
           (snd (get_service default_settings LLM None stub_factory)))
     = Inr (Instance 0 (stub_class ''LLM'') [] [])
   \<and> get_times default_settings LLM None 3
        (snd (get_service default_settings LLM None stub_factory))
     = ([Inr (Instance 0 (stub_class ''LLM'') [] []),
         Inr (Instance 0 (stub_class ''LLM'') [] []),
         Inr (Instance 0 (stub_class ''LLM'') [] [])],
        snd (get_service default_settings LLM None stub_factory))
   \<and> ctor_calls (snd (get_service default_settings LLM None stub_factory))
     = [(LLM, ''openai'')]
   \<and> \<not> obtainable default_settings LLM (Some ''anthropic'') stub_factory
   \<and> (\<exists>e. fst (get_service default_settings LLM (Some ''anthropic'') stub_factory) = Inl e)
   \<and> obtainable default_settings Chat None stub_factory
   \<and> (\<exists>i. fst (get_service default_settings Chat None stub_factory) = Inr i)"
proof -
  define s1 where "s1 = snd (get_service default_settings LLM None stub_factory)"
  have o: "obtainable default_settings LLM None stub_factory"
    by (simp add: obtainable_def leaf_obtainable_def cached_def constructs_def cache_key_def
        registry_def factory_eval)
  have n: "\<not> obtainable default_settings LLM (Some ''anthropic'') stub_factory"
    by (simp add: obtainable_def leaf_obtainable_def cached_def constructs_def cache_key_def
        registry_def role_prefix_def factory_eval)
  have oc: "obtainable default_settings Chat None stub_factory"
    by (simp add: obtainable_def chat_obtainable_def strategy_obtainable_def
        leaf_obtainable_def cached_def constructs_def cache_key_def registry_def factory_eval)
  from get_returns_singleton [of default_settings Chat None stub_factory 0] oc
  have gc: "\<exists>i. fst (get_service default_settings Chat None stub_factory) = Inr i"
    by force
  have h: "get_service default_settings LLM None stub_factory
             = (Inr (Instance 0 (stub_class ''LLM'') [] []), s1)"
    unfolding s1_def by (simp add: factory_eval)
  have c: "ctor_calls s1 = [(LLM, ''openai'')]"
    unfolding s1_def by (simp add: factory_eval)
  from get_returns_singleton [of default_settings LLM None stub_factory 3] o
  obtain i t where p: "get_service default_settings LLM None stub_factory = (Inr i, t)"
    "get_service default_settings LLM None t = (Inr i, t)"
    "get_times default_settings LLM None 3 t = (replicate 3 (Inr i), t)"
    by blast
  from p(1) h have "i = Instance 0 (stub_class ''LLM'') [] []" "t = s1" by simp_all
  with p have "get_service default_settings LLM None s1
          = (Inr (Instance 0 (stub_class ''LLM'') [] []), s1)"
    and "get_times default_settings LLM None 3 s1
          = (replicate 3 (Inr (Instance 0 (stub_class ''LLM'') [] [])), s1)"
    by simp_all
  moreover from get_returns_singleton [of default_settings LLM "Some ''anthropic''" stub_factory 0] n
  have "\<exists>e. fst (get_service default_settings LLM (Some ''anthropic'') stub_factory) = Inl e"
    by blast
  ultimately show ?thesis
    using h c o n oc gc unfolding s1_def [symmetric] by (simp add: numeral_3_eq_3)
qed

text \<open>
  C4, as claimed: \<open>create\<close> and \<open>get\<close> fail for every name that has no registered
  constructor. They do not for the empty name: \<open>""\<close> is not registered, yet
  \<open>get_llm_provider("")\<close> and \<open>create_llm_provider("")\<close> take the configured default
  \<open>"openai"\<close> instead, build its class, and \<open>get\<close> caches the object.
\<close>

theorem empty_name_takes_default:
  "map_of (registry LLM stub_factory) [] = None
   \<and> fst (create_service default_settings LLM (Some []) None None [] stub_factory)
       = Inr (Instance 0 (stub_class ''LLM'') [] [])
   \<and> fst (get_service default_settings LLM (Some []) stub_factory)
       = Inr (Instance 0 (stub_class ''LLM'') [] [])
   \<and> map_of (instances (snd (get_service default_settings LLM (Some []) stub_factory)))
        ''llm_provider_openai''
       = Some (Instance 0 (stub_class ''LLM'') [] [])"
  by (simp add: factory_eval registry_def)

text \<open>
  C4, amended: in a registry with a consistent cache, whenever the name actually looked
  up (the requested name, or the configured default when the requested name of a leaf
  role is missing or empty) has no registered constructor for the role, \<open>create\<close> and
  \<open>get\<close> raise the \<open>ValueError\<close> that carries that name and the names registered
  for the role, in registration order, and leave the whole state as it was: nothing is
  constructed and nothing is cached.
\<close>

theorem unknown_provider_fails:
  assumes "cache_ok s" and "map_of (registry r s) (effective_name cfg r name) = None"
  shows "create_service cfg r name d1 d2 kw s
           = (Inl (ValueError (role_label r) (effective_name cfg r name)
                     (map fst (registry r s))), s)
       \<and> get_service cfg r name s
           = (Inl (ValueError (role_label r) (effective_name cfg r name)
                     (map fst (registry r s))), s)"
proof -
  have "map_of (instances s) (cache_key cfg r name) = None"
  proof (cases "map_of (instances s) (cache_key cfg r name)")
    case (Some i)
    then have "map_of (instances s) (role_prefix r @ effective_name cfg r name) = Some i"
      by (simp add: cache_key_def)
    from cached_registered [OF assms(1) this] assms(2) show ?thesis by simp
  qed simp
  from get_unknown [OF assms(2) this] create_unknown [OF assms(2)]
  show ?thesis by simp
qed

theorem unknown_provider_fails_witness:
  "cache_ok stub_factory
   \<and> map_of (registry LLM stub_factory)
        (effective_name default_settings LLM (Some ''anthropic'')) = None
   \<and> create_service default_settings LLM (Some ''anthropic'') None None [] stub_factory
       = (Inl (ValueError ''Unknown LLM provider'' ''anthropic'' [''openai'']), stub_factory)
   \<and> get_service default_settings LLM (Some ''anthropic'') stub_factory
       = (Inl (ValueError ''Unknown LLM provider'' ''anthropic'' [''openai'']), stub_factory)"
proof -
  have a: "cache_ok stub_factory"
    by (simp add: factory_eval cache_ok_def)
  have b: "map_of (registry LLM stub_factory)
             (effective_name default_settings LLM (Some ''anthropic'')) = None"
    by (simp add: factory_eval registry_def)
  have c: "effective_name default_settings LLM (Some ''anthropic'') = ''anthropic''"
    "map fst (registry LLM stub_factory) = [''openai'']"
    "role_label LLM = ''Unknown LLM provider''"
    by (simp_all add: factory_eval registry_def role_label_def)
  from unknown_provider_fails [OF a b, of None None "[]"] a b show ?thesis
    unfolding c by simp
qed

text \<open>
  C8, as claimed: a \<open>get\<close> after \<open>clear_instances\<close> constructs and returns a new
  object. Not so when the class now registered under the name has a constructor that
  raises: the object cached before the clearing (built by the class registered earlier)
  is returned by a \<open>get\<close> before it, and the \<open>get\<close> after it raises and leaves the
  cache empty.
\<close>

theorem clear_then_get_can_raise:
  "map_of (instances
       (register_llm_provider ''openai''
          \<lparr>class_name = ''LLM2'', init_raises = True, init_error = ConstructorError ''LLM2'',
           connection = ProbeTrue\<rparr>
          (snd (get_service default_settings LLM None stub_factory)))) ''llm_provider_openai''
     = Some (Instance 0 (stub_class ''LLM'') [] [])
   \<and> fst (get_service default_settings LLM None
       (register_llm_provider ''openai''
          \<lparr>class_name = ''LLM2'', init_raises = True, init_error = ConstructorError ''LLM2'',
           connection = ProbeTrue\<rparr>
          (snd (get_service default_settings LLM None stub_factory))))
     = Inr (Instance 0 (stub_class ''LLM'') [] [])
   \<and> fst (get_service default_settings LLM None
       (clear_instances
         (register_llm_provider ''openai''
            \<lparr>class_name = ''LLM2'', init_raises = True, init_error = ConstructorError ''LLM2'',
             connection = ProbeTrue\<rparr>
            (snd (get_service default_settings LLM None stub_factory)))))
     = Inl (ConstructorError ''LLM2'')
   \<and> instances (snd (get_service default_settings LLM None
       (clear_instances
         (register_llm_provider ''openai''
            \<lparr>class_name = ''LLM2'', init_raises = True, init_error = ConstructorError ''LLM2'',
             connection = ProbeTrue\<rparr>
            (snd (get_service default_settings LLM None stub_factory))))))
     = []"
  by (simp add: factory_eval)

text \<open>
  C8, amended. \<open>clear_instances\<close> empties the cache and leaves every registration as
  it was. When, after it, the object of a role and name can be obtained (a class is
  registered under the name looked up, its constructor does not raise, and the same
  holds of its dependencies), a \<open>get\<close> in a registry whose cache was consistent
  returns an object allocated after every object that was cached before the clearing
  (so a different one), obtained from a new constructor call and stored under the cache
  key.
\<close>

theorem clear_then_get_rebuilds:
  assumes "cache_ok s" and "obtainable cfg r name (clear_instances s)"
  shows "instances (clear_instances s) = []
       \<and> (\<forall>q. registry q (clear_instances s) = registry q s)
       \<and> (\<exists>j s2. get_service cfg r name (clear_instances s) = (Inr j, s2)
            \<and> (\<forall>k i. map_of (instances s) k = Some i \<longrightarrow> oid i < oid j \<and> i \<noteq> j)
            \<and> map_of (instances s2) (cache_key cfg r name) = Some j
            \<and> (\<exists>xs. ctor_calls s2 = ctor_calls s @ xs @ [(r, effective_name cfg r name)]))"
proof -
  have reg: "\<forall>q. registry q (clear_instances s) = registry q s"
    by (simp add: clear_instances_def)
  from assms(2) obtain j s2
    where run: "get_service cfg r name (clear_instances s) = (Inr j, s2)"
    by (rule get_obtainable)
  have unc: "map_of (instances (clear_instances s)) (cache_key cfg r name) = None"
    by (simp add: clear_instances_def)
  from get_fresh [OF run unc]
  have new: "next_oid s \<le> oid j"
    and calls: "\<exists>xs. ctor_calls s2 = ctor_calls s @ xs @ [(r, effective_name cfg r name)]"
    by (auto simp: clear_instances_def)
  have old: "oid i < oid j \<and> i \<noteq> j" if "map_of (instances s) k = Some i" for k i
  proof -
    from that have "(k, i) \<in> set (instances s)" by (rule map_of_SomeD)
    with assms(1) have "oid i < next_oid s"
      unfolding cache_ok_def by blast
    with new show ?thesis by auto
  qed
  from run old calls get_cached_after [OF run]
  have "\<exists>j s2. get_service cfg r name (clear_instances s) = (Inr j, s2)
            \<and> (\<forall>k i. map_of (instances s) k = Some i \<longrightarrow> oid i < oid j \<and> i \<noteq> j)
            \<and> map_of (instances s2) (cache_key cfg r name) = Some j
            \<and> (\<exists>xs. ctor_calls s2 = ctor_calls s @ xs @ [(r, effective_name cfg r name)])"
    by blast
  with reg show ?thesis
    by (simp add: clear_instances_def)
qed

theorem clear_then_get_rebuilds_witness:
  "cache_ok (snd (get_service default_settings Retrieval None stub_factory))
   \<and> obtainable default_settings Retrieval None
       (clear_instances (snd (get_service default_settings Retrieval None stub_factory)))
   \<and> fst (get_service default_settings Retrieval None stub_factory)
     = Inr (Instance 2 (stub_class ''Similarity'') []
         [(''vector_store'', Instance 0 (stub_class ''Store'') [] []),
          (''embeddings_service'', Instance 1 (stub_class ''Embed'') [] [])])
   \<and> fst (get_service default_settings Retrieval None
       (clear_instances (snd (get_service default_settings Retrieval None stub_factory))))
     = Inr (Instance 5 (stub_class ''Similarity'') []
         [(''vector_store'', Instance 3 (stub_class ''Store'') [] []),
          (''embeddings_service'', Instance 4 (stub_class ''Embed'') [] [])])
   \<and> retrieval_strategies
        (clear_instances (snd (get_service default_settings Retrieval None stub_factory)))
     = [(''similarity'', stub_class ''Similarity'')]"
proof -
  define s1 where "s1 = snd (get_service default_settings Retrieval None stub_factory)"
  define s2 where "s2 = snd (get_service default_settings Retrieval None (clear_instances s1))"
  let ?i = "Instance 2 (stub_class ''Similarity'') []
         [(''vector_store'', Instance 0 (stub_class ''Store'') [] []),
          (''embeddings_service'', Instance 1 (stub_class ''Embed'') [] [])]"
  let ?j = "Instance 5 (stub_class ''Similarity'') []
         [(''vector_store'', Instance 3 (stub_class ''Store'') [] []),
          (''embeddings_service'', Instance 4 (stub_class ''Embed'') [] [])]"
  have a: "cache_ok stub_factory"
    by (simp add: factory_eval cache_ok_def)
  have h1: "get_service default_settings Retrieval None stub_factory = (Inr ?i, s1)"
    unfolding s1_def by (simp add: factory_eval)
  have c: "cache_ok s1"
    using get_trans_ok [OF h1] a by (simp add: trans_ok_def)
  have o: "obtainable default_settings Retrieval None (clear_instances s1)"
    unfolding s1_def
    by (simp add: obtainable_def strategy_obtainable_def leaf_obtainable_def cached_def
        constructs_def cache_key_def registry_def factory_eval)
  have h2: "get_service default_settings Retrieval None (clear_instances s1) = (Inr ?j, s2)"
    unfolding s2_def s1_def by (simp add: factory_eval)
  from clear_then_get_rebuilds [OF c o]
  have "registry Retrieval (clear_instances s1) = registry Retrieval s1"
    by blast
  moreover have "retrieval_strategies s1 = [(''similarity'', stub_class ''Similarity'')]"
    unfolding s1_def by (simp add: factory_eval)
  ultimately have "retrieval_strategies (clear_instances s1)
      = [(''similarity'', stub_class ''Similarity'')]"
    by (simp add: registry_def)
  with h1 h2 c o show ?thesis
    unfolding s1_def [symmetric] by simp
qed

section \<open>Registry: the cache stays consistent\<close>

lemma keys_update: "fst ` set (AList.update k v al) = insert k (fst ` set al)"
  by (induction al) auto

lemma key_registered_mono:
  assumes "key_registered s k" and "\<And>q. fst ` set (registry q s) \<subseteq> fst ` set (registry q s')"
  shows "key_registered s' k"
  using assms unfolding key_registered_def by blast

lemma cache_ok_register:
  assumes "cache_ok s" and "instances s' = instances s" and "next_oid s' = next_oid s"
    and "\<And>q. fst ` set (registry q s) \<subseteq> fst ` set (registry q s')"
  shows "cache_ok s'"
  using assms(1) key_registered_mono [OF _ assms(4)]
  unfolding cache_ok_def assms(2,3) by blast

lemma cache_ok_registrations:
  assumes "cache_ok s"
  shows "cache_ok (register_llm_provider n c s)"
    and "cache_ok (register_embeddings_service n c s)"
    and "cache_ok (register_vector_store n c s)"
    and "cache_ok (register_retrieval_strategy n c s)"
    and "cache_ok (register_chat_service n c s)"
  by (rule cache_ok_register [OF assms];
      simp add: register_llm_provider_def register_embeddings_service_def
        register_vector_store_def register_retrieval_strategy_def register_chat_service_def;
      rename_tac q; case_tac q; auto simp: registry_def keys_update)+

lemma cache_ok_empty: "cache_ok empty_factory"
  by (simp add: cache_ok_def empty_factory_def)

lemma cache_ok_clear: "cache_ok (clear_instances s)"
  by (simp add: cache_ok_def clear_instances_def)

lemma trans_ok_instantiate:
  "trans_ok s (snd (instantiate r n c kw deps s))"
proof -
  obtain res s' where e: "instantiate r n c kw deps s = (res, s')"
    by (cases "instantiate r n c kw deps s")
  from run_ok_instantiate [OF e] e show ?thesis by (simp add: run_ok_def)
qed

lemma trans_ok_get: "trans_ok s (snd (get_service cfg r name s))"
proof -
  obtain res s' where e: "get_service cfg r name s = (res, s')"
    by (cases "get_service cfg r name s")
  from get_trans_ok [OF e] e show ?thesis by simp
qed

text \<open>Fetching a dependency that the caller did not supply.\<close>

lemma trans_ok_dependency:
  "trans_ok s (snd (case d of Some v \<Rightarrow> (Inr v, s) | None \<Rightarrow> get_service cfg r name s))"
  by (cases d) (simp_all add: trans_ok_refl trans_ok_get)

lemma trans_ok_create_composite:
  assumes f: "\<And>t. trans_ok t (snd (f t))" and g: "\<And>t. trans_ok t (snd (g t))"
  shows "trans_ok s (snd
    (case f s of
       (Inl e, s1) \<Rightarrow> (Inl e, s1)
     | (Inr a, s1) \<Rightarrow>
         (case g s1 of
            (Inl e, s2) \<Rightarrow> (Inl e, s2)
          | (Inr b, s2) \<Rightarrow>
              (case map_of (reg s2) n of
                 None \<Rightarrow> (Inl KeyError, s2)
               | Some c \<Rightarrow> instantiate r n c kw [(l1, a), (l2, b)] s2))))"
proof -
  obtain x s1 where fs: "f s = (x, s1)" by (cases "f s")
  have t1: "trans_ok s s1"
    using f [of s] fs by simp
  show ?thesis
  proof (cases x)
    case (Inl e)
    with fs t1 show ?thesis by simp
  next
    case (Inr a)
    obtain y s2 where gs: "g s1 = (y, s2)" by (cases "g s1")
    have "trans_ok s1 s2"
      using g [of s1] gs by simp
    with t1 have t2: "trans_ok s s2"
      by (rule trans_ok_trans)
    show ?thesis
    proof (cases y)
      case (Inl e)
      with fs gs Inr t2 show ?thesis by simp
    next
      case b: (Inr b)
      show ?thesis
      proof (cases "map_of (reg s2) n")
        case None
        with fs gs Inr b t2 show ?thesis by simp
      next
        case (Some c)
        with fs gs Inr b show ?thesis
          using trans_ok_trans [OF t2 trans_ok_instantiate] by simp
      qed
    qed
  qed
qed

lemma trans_ok_create: "trans_ok s (snd (create_service cfg r name d1 d2 kw s))"
proof (cases r)
  case LLM
  then show ?thesis
    by (simp add: create_service_def create_llm_provider_def Let_def trans_ok_refl
        trans_ok_instantiate split: option.splits)
next
  case Embeddings
  then show ?thesis
    by (simp add: create_service_def create_embeddings_service_def Let_def trans_ok_refl
        trans_ok_instantiate split: option.splits)
next
  case VectorStore
  then show ?thesis
    by (simp add: create_service_def create_vector_store_def Let_def trans_ok_refl
        trans_ok_instantiate split: option.splits)
next
  case Retrieval
  have "trans_ok s (snd (create_retrieval_strategy cfg n d1 d2 kw s))" for n
  proof (cases "map_of (retrieval_strategies s) n = None")
    case True
    then show ?thesis
      by (simp add: create_retrieval_strategy_def trans_ok_refl)
  next
    case False
    have "trans_ok s (snd
      (case (\<lambda>t. case d1 of Some v \<Rightarrow> (Inr v, t) | None \<Rightarrow> get_service cfg VectorStore None t) s of
         (Inl e, s1) \<Rightarrow> (Inl e, s1)
       | (Inr a, s1) \<Rightarrow>
           (case (\<lambda>t. case d2 of Some v \<Rightarrow> (Inr v, t) | None \<Rightarrow> get_service cfg Embeddings None t) s1 of
              (Inl e, s2) \<Rightarrow> (Inl e, s2)
            | (Inr b, s2) \<Rightarrow>
                (case map_of (retrieval_strategies s2) n of
                   None \<Rightarrow> (Inl KeyError, s2)
                 | Some c \<Rightarrow>
                     instantiate Retrieval n c kw
                       [(''vector_store'', a), (''embeddings_service'', b)] s2))))"
      by (rule trans_ok_create_composite) (rule trans_ok_dependency)+
    with False show ?thesis
      unfolding create_retrieval_strategy_def leaf_as_service by (simp add: trans_ok_refl)
  qed
  with Retrieval show ?thesis by (simp add: create_service_def)
next
  case Chat
  have sim: "get_retrieval_strategy cfg ''similarity'' = get_service cfg Retrieval None"
    by (simp add: fun_eq_iff get_service_def effective_name_def)
  have "trans_ok s (snd (create_chat_service cfg n d1 d2 kw s))" for n
  proof (cases "map_of (chat_services s) n = None")
    case True
    then show ?thesis
      by (simp add: create_chat_service_def trans_ok_refl)
  next
    case False
    have "trans_ok s (snd
      (case (\<lambda>t. case d1 of Some v \<Rightarrow> (Inr v, t) | None \<Rightarrow> get_service cfg LLM None t) s of
         (Inl e, s1) \<Rightarrow> (Inl e, s1)
       | (Inr a, s1) \<Rightarrow>
           (case (\<lambda>t. case d2 of Some v \<Rightarrow> (Inr v, t) | None \<Rightarrow> get_service cfg Retrieval None t) s1 of
              (Inl e, s2) \<Rightarrow> (Inl e, s2)
            | (Inr b, s2) \<Rightarrow>
                (case map_of (chat_services s2) n of
                   None \<Rightarrow> (Inl KeyError, s2)
                 | Some c \<Rightarrow>
                     instantiate Chat n c kw
                       [(''llm_provider'', a), (''retrieval_strategy'', b)] s2))))"
      by (rule trans_ok_create_composite) (rule trans_ok_dependency)+
    with False show ?thesis
      unfolding create_chat_service_def leaf_as_service sim by (simp add: trans_ok_refl)
  qed
  with Chat show ?thesis by (simp add: create_service_def)
qed

lemma trans_ok_validate: "trans_ok s (snd (validate_all_connections cfg s))"
proof -
  let ?s1 = "snd (get_service cfg LLM None s)"
  let ?s2 = "snd (get_service cfg Embeddings None ?s1)"
  let ?s3 = "snd (get_service cfg VectorStore None ?s2)"
  have "snd (validate_all_connections cfg s) = ?s1
      \<or> snd (validate_all_connections cfg s) = ?s2
      \<or> snd (validate_all_connections cfg s) = ?s3"
    unfolding validate_all_connections_def leaf_as_service
    by (simp add: Let_def split_beta split: sum.splits)
  moreover have "trans_ok s ?s1"
    by (rule trans_ok_get)
  moreover have "trans_ok s ?s2"
    using trans_ok_trans [OF trans_ok_get trans_ok_get] .
  moreover have "trans_ok s ?s3"
    using trans_ok_trans [OF trans_ok_trans [OF trans_ok_get trans_ok_get] trans_ok_get] .
  ultimately show ?thesis by auto
qed

lemma reachable_cache_ok: "reachable cfg s \<Longrightarrow> cache_ok s"
proof (induction rule: reachable.induct)
  case start
  show ?case by (rule cache_ok_empty)
next
  case (made s r name d1 d2 kw)
  with trans_ok_create [of s cfg r name d1 d2 kw] show ?case by (simp add: trans_ok_def)
next
  case (got s r name)
  with trans_ok_get [of s cfg r name] show ?case by (simp add: trans_ok_def)
next
  case (cleared s)
  show ?case by (rule cache_ok_clear)
next
  case (validated s)
  with trans_ok_validate [of s cfg] show ?case by (simp add: trans_ok_def)
qed (simp_all add: cache_ok_registrations)

section \<open>Readiness: independent probes\<close>

lemma role_outcome_recorded:
  "\<not> role_aborts cfg r s \<Longrightarrow> role_outcome cfg r s = Inr (role_healthy cfg r s)"
  by (auto simp: role_outcome_def role_aborts_def role_raises_def role_healthy_def
      served_class_def split: option.splits probe_outcome.splits if_splits)

lemma role_outcome_aborts:
  "role_raises cfg r s = Some e \<Longrightarrow> \<not> is_exception e \<Longrightarrow> role_outcome cfg r s = Inl e"
  by (simp add: role_outcome_def)

lemma leaf_probe:
  assumes "r = LLM \<or> r = Embeddings \<or> r = VectorStore"
  shows "probe_guarded (fst (get_service cfg r None s)) = role_outcome cfg r s"
  unfolding get_leaf [OF assms]
  by (auto simp: Let_def probe_guarded_def validate_connection_def role_healthy_def
      role_outcome_def role_raises_def served_class_def cache_key_def
      split: option.splits probe_outcome.splits)

lemma leaf_outcome_frame:
  assumes "r = LLM \<or> r = Embeddings \<or> r = VectorStore" and "q \<noteq> r"
  shows "role_outcome cfg q (snd (get_service cfg r None s)) = role_outcome cfg q s"
proof -
  obtain res s' where e: "get_service cfg r None s = (res, s')"
    by (cases "get_service cfg r None s")
  have "cache_key cfg q None \<noteq> cache_key cfg r None"
    using assms(2) by (simp add: cache_key_def prefix_differs)
  from leaf_other_keys [OF assms(1) e this] leaf_registry [OF assms(1) e, of q]
  show ?thesis
    using e
    by (simp add: role_outcome_def role_raises_def role_healthy_def served_class_def
        cong: option.case_cong)
qed

text \<open>
  The three probes, each as the outcome of its own role in the state before the call;
  a raise that is not caught ends the call at that probe.
\<close>

lemma validate_all_run:
  "fst (validate_all_connections cfg s)
     = (case role_outcome cfg LLM s of
          Inl e \<Rightarrow> Inl e
        | Inr b1 \<Rightarrow>
            (case role_outcome cfg Embeddings s of
               Inl e \<Rightarrow> Inl e
             | Inr b2 \<Rightarrow>
                 (case role_outcome cfg VectorStore s of
                    Inl e \<Rightarrow> Inl e
                  | Inr b3 \<Rightarrow>
                      Inr [(''llm_provider'', b1), (''embeddings_service'', b2),
                           (''vector_store'', b3)])))"
proof -
  let ?s1 = "snd (get_service cfg LLM None s)"
  let ?s2 = "snd (get_service cfg Embeddings None ?s1)"
  have 1: "probe_guarded (fst (get_service cfg LLM None s)) = role_outcome cfg LLM s"
    by (simp add: leaf_probe)
  have 2: "probe_guarded (fst (get_service cfg Embeddings None ?s1))
             = role_outcome cfg Embeddings s"
    by (simp add: leaf_probe leaf_outcome_frame)
  have 3: "probe_guarded (fst (get_service cfg VectorStore None ?s2))
             = role_outcome cfg VectorStore s"
    by (simp add: leaf_probe leaf_outcome_frame)
  show ?thesis
    unfolding validate_all_connections_def leaf_as_service
    by (simp add: Let_def split_beta 1 2 3 split: sum.splits)
qed

lemma readiness_of_validation:
  "fst (readiness_check cfg s)
     = (case fst (validate_all_connections cfg s) of
          Inr connections \<Rightarrow>
            Inr \<lparr>status_code = (if py_all (map snd connections) then 200 else 503),
                 status = (if py_all (map snd connections) then ''ready'' else ''not ready''),
                 services = Some connections, error_detail = None\<rparr>
        | Inl e \<Rightarrow>
            if is_exception e
            then Inr \<lparr>status_code = 503, status = ''not ready'',
                      services = None, error_detail = Some e\<rparr>
            else Inl e)"
  by (simp add: readiness_check_def Let_def split: prod.splits sum.splits)

text \<open>
  C5, as claimed: whenever the construction or the probe of exactly one role raises,
  that role is recorded \<open>False\<close>, the other two \<open>True\<close>, and the mapping has its
  three entries. Not so when the raise is not an \<open>Exception\<close>: with a vector store
  whose probe raises \<open>asyncio.CancelledError\<close> (or an LLM provider whose probe does),
  \<open>validate_all_connections\<close> and the readiness endpoint raise it in turn, no mapping
  is returned, and after the LLM provider nothing else is even constructed.
\<close>

theorem validate_all_lets_cancellation_through:
  "fst (validate_all_connections default_settings
        (register_vector_store ''pinecone''
           \<lparr>class_name = ''Store'', init_raises = False, init_error = ConstructorError ''Store'',
            connection = ProbeRaises (NotException ''CancelledError'')\<rparr> stub_factory))
     = Inl (NotException ''CancelledError'')
   \<and> fst (readiness_check default_settings
        (register_vector_store ''pinecone''
           \<lparr>class_name = ''Store'', init_raises = False, init_error = ConstructorError ''Store'',
            connection = ProbeRaises (NotException ''CancelledError'')\<rparr> stub_factory))
     = Inl (NotException ''CancelledError'')
   \<and> fst (validate_all_connections default_settings
        (register_llm_provider ''openai''
           \<lparr>class_name = ''LLM'', init_raises = False, init_error = ConstructorError ''LLM'',
            connection = ProbeRaises (NotException ''CancelledError'')\<rparr> stub_factory))
     = Inl (NotException ''CancelledError'')
   \<and> ctor_calls (snd (validate_all_connections default_settings
        (register_llm_provider ''openai''
           \<lparr>class_name = ''LLM'', init_raises = False, init_error = ConstructorError ''LLM'',
            connection = ProbeRaises (NotException ''CancelledError'')\<rparr> stub_factory)))
     = [(LLM, ''openai'')]"
  by (simp add: factory_eval validate_all_connections_def readiness_check_def
      probe_guarded_def validate_connection_def is_exception_def)

text \<open>
  C5, amended. When none of the three roles raises anything but an \<open>Exception\<close>,
  \<open>validate_all_connections\<close> returns exactly the three entries, in this order, and
  the value of each is the health of its own role in the state before the call: the
  outcome for one role does not depend on what happened to the others. The readiness
  endpoint then answers 200 and \<open>"ready"\<close> when all three are true, and 503 and
  \<open>"not ready"\<close> otherwise. In particular, when exactly one role fails (unknown name,
  constructor that raises, probe that raises or returns \<open>False\<close>), that role is
  recorded \<open>False\<close>, the other two \<open>True\<close>, and the answer is 503. A raise that is
  not an \<open>Exception\<close>, from the first role that has one, leaves
  \<open>validate_all_connections\<close> and the readiness endpoint: no mapping is returned.
\<close>

theorem validate_all_isolates_failures:
  "(\<not> role_aborts cfg LLM s \<and> \<not> role_aborts cfg Embeddings s
      \<and> \<not> role_aborts cfg VectorStore s \<longrightarrow>
      fst (validate_all_connections cfg s)
        = Inr [(''llm_provider'', role_healthy cfg LLM s),
               (''embeddings_service'', role_healthy cfg Embeddings s),
               (''vector_store'', role_healthy cfg VectorStore s)]
      \<and> fst (readiness_check cfg s)
        = Inr \<lparr>status_code =
                 (if role_healthy cfg LLM s \<and> role_healthy cfg Embeddings s
                     \<and> role_healthy cfg VectorStore s then 200 else 503),
               status =
                 (if role_healthy cfg LLM s \<and> role_healthy cfg Embeddings s
                     \<and> role_healthy cfg VectorStore s then ''ready'' else ''not ready''),
               services =
                 Some [(''llm_provider'', role_healthy cfg LLM s),
                       (''embeddings_service'', role_healthy cfg Embeddings s),
                       (''vector_store'', role_healthy cfg VectorStore s)],
               error_detail = None\<rparr>
      \<and> (\<not> role_healthy cfg LLM s \<and> role_healthy cfg Embeddings s
           \<and> role_healthy cfg VectorStore s \<longrightarrow>
           fst (validate_all_connections cfg s)
             = Inr [(''llm_provider'', False), (''embeddings_service'', True),
                    (''vector_store'', True)]
           \<and> fst (readiness_check cfg s)
             = Inr \<lparr>status_code = 503, status = ''not ready'',
                    services = Some [(''llm_provider'', False), (''embeddings_service'', True),
                                     (''vector_store'', True)],
                    error_detail = None\<rparr>)
      \<and> (role_healthy cfg LLM s \<and> \<not> role_healthy cfg Embeddings s
           \<and> role_healthy cfg VectorStore s \<longrightarrow>
           fst (validate_all_connections cfg s)
             = Inr [(''llm_provider'', True), (''embeddings_service'', False),
                    (''vector_store'', True)]
           \<and> fst (readiness_check cfg s)
             = Inr \<lparr>status_code = 503, status = ''not ready'',
                    services = Some [(''llm_provider'', True), (''embeddings_service'', False),
                                     (''vector_store'', True)],
                    error_detail = None\<rparr>)
      \<and> (role_healthy cfg LLM s \<and> role_healthy cfg Embeddings s
           \<and> \<not> role_healthy cfg VectorStore s \<longrightarrow>
           fst (validate_all_connections cfg s)
             = Inr [(''llm_provider'', True), (''embeddings_service'', True),
                    (''vector_store'', False)]
           \<and> fst (readiness_check cfg s)
             = Inr \<lparr>status_code = 503, status = ''not ready'',
                    services = Some [(''llm_provider'', True), (''embeddings_service'', True),
                                     (''vector_store'', False)],
                    error_detail = None\<rparr>))
   \<and> (role_raises cfg LLM s = Some e \<and> \<not> is_exception e \<longrightarrow>
        fst (validate_all_connections cfg s) = Inl e
        \<and> fst (readiness_check cfg s) = Inl e)
   \<and> (\<not> role_aborts cfg LLM s
        \<and> role_raises cfg Embeddings s = Some e \<and> \<not> is_exception e \<longrightarrow>
        fst (validate_all_connections cfg s) = Inl e
        \<and> fst (readiness_check cfg s) = Inl e)
   \<and> (\<not> role_aborts cfg LLM s \<and> \<not> role_aborts cfg Embeddings s
        \<and> role_raises cfg VectorStore s = Some e \<and> \<not> is_exception e \<longrightarrow>
        fst (validate_all_connections cfg s) = Inl e
        \<and> fst (readiness_check cfg s) = Inl e)"
proof -
  let ?hl = "role_healthy cfg LLM s"
  let ?he = "role_healthy cfg Embeddings s"
  let ?hv = "role_healthy cfg VectorStore s"
  have ok: "fst (validate_all_connections cfg s)
              = Inr [(''llm_provider'', ?hl), (''embeddings_service'', ?he),
                     (''vector_store'', ?hv)]"
    if "\<not> role_aborts cfg LLM s" "\<not> role_aborts cfg Embeddings s"
      "\<not> role_aborts cfg VectorStore s"
    unfolding validate_all_run using that by (simp add: role_outcome_recorded)
  have ready: "fst (readiness_check cfg s)
        = Inr \<lparr>status_code = (if ?hl \<and> ?he \<and> ?hv then 200 else 503),
               status = (if ?hl \<and> ?he \<and> ?hv then ''ready'' else ''not ready''),
               services = Some [(''llm_provider'', ?hl), (''embeddings_service'', ?he),
                                (''vector_store'', ?hv)],
               error_detail = None\<rparr>"
    if "\<not> role_aborts cfg LLM s" "\<not> role_aborts cfg Embeddings s"
      "\<not> role_aborts cfg VectorStore s"
    unfolding readiness_of_validation ok [OF that] by simp
  have A: "\<not> role_aborts cfg LLM s \<and> \<not> role_aborts cfg Embeddings s
      \<and> \<not> role_aborts cfg VectorStore s \<longrightarrow>
      fst (validate_all_connections cfg s)
        = Inr [(''llm_provider'', ?hl), (''embeddings_service'', ?he), (''vector_store'', ?hv)]
      \<and> fst (readiness_check cfg s)
        = Inr \<lparr>status_code = (if ?hl \<and> ?he \<and> ?hv then 200 else 503),
               status = (if ?hl \<and> ?he \<and> ?hv then ''ready'' else ''not ready''),
               services = Some [(''llm_provider'', ?hl), (''embeddings_service'', ?he),
                                (''vector_store'', ?hv)],
               error_detail = None\<rparr>
      \<and> (\<not> ?hl \<and> ?he \<and> ?hv \<longrightarrow>
           fst (validate_all_connections cfg s)
             = Inr [(''llm_provider'', False), (''embeddings_service'', True),
                    (''vector_store'', True)]
           \<and> fst (readiness_check cfg s)
             = Inr \<lparr>status_code = 503, status = ''not ready'',
                    services = Some [(''llm_provider'', False), (''embeddings_service'', True),
                                     (''vector_store'', True)],
                    error_detail = None\<rparr>)
      \<and> (?hl \<and> \<not> ?he \<and> ?hv \<longrightarrow>
           fst (validate_all_connections cfg s)
             = Inr [(''llm_provider'', True), (''embeddings_service'', False),
                    (''vector_store'', True)]
           \<and> fst (readiness_check cfg s)
             = Inr \<lparr>status_code = 503, status = ''not ready'',
                    services = Some [(''llm_provider'', True), (''embeddings_service'', False),
                                     (''vector_store'', True)],
                    error_detail = None\<rparr>)
      \<and> (?hl \<and> ?he \<and> \<not> ?hv \<longrightarrow>
           fst (validate_all_connections cfg s)
             = Inr [(''llm_provider'', True), (''embeddings_service'', True),
                    (''vector_store'', False)]
           \<and> fst (readiness_check cfg s)
             = Inr \<lparr>status_code = 503, status = ''not ready'',
                    services = Some [(''llm_provider'', True), (''embeddings_service'', True),
                                     (''vector_store'', False)],
                    error_detail = None\<rparr>)"
  proof
    assume n: "\<not> role_aborts cfg LLM s \<and> \<not> role_aborts cfg Embeddings s
      \<and> \<not> role_aborts cfg VectorStore s"
    then have v: "fst (validate_all_connections cfg s)
        = Inr [(''llm_provider'', ?hl), (''embeddings_service'', ?he), (''vector_store'', ?hv)]"
      using ok by blast
    from n have r: "fst (readiness_check cfg s)
        = Inr \<lparr>status_code = (if ?hl \<and> ?he \<and> ?hv then 200 else 503),
               status = (if ?hl \<and> ?he \<and> ?hv then ''ready'' else ''not ready''),
               services = Some [(''llm_provider'', ?hl), (''embeddings_service'', ?he),
                                (''vector_store'', ?hv)],
               error_detail = None\<rparr>"
      using ready by blast
    show "fst (validate_all_connections cfg s)
        = Inr [(''llm_provider'', ?hl), (''embeddings_service'', ?he), (''vector_store'', ?hv)]
      \<and> fst (readiness_check cfg s)
        = Inr \<lparr>status_code = (if ?hl \<and> ?he \<and> ?hv then 200 else 503),
               status = (if ?hl \<and> ?he \<and> ?hv then ''ready'' else ''not ready''),
               services = Some [(''llm_provider'', ?hl), (''embeddings_service'', ?he),
                                (''vector_store'', ?hv)],
               error_detail = None\<rparr>
      \<and> (\<not> ?hl \<and> ?he \<and> ?hv \<longrightarrow>
           fst (validate_all_connections cfg s)
             = Inr [(''llm_provider'', False), (''embeddings_service'', True),
                    (''vector_store'', True)]
           \<and> fst (readiness_check cfg s)
             = Inr \<lparr>status_code = 503, status = ''not ready'',
                    services = Some [(''llm_provider'', False), (''embeddings_service'', True),
                                     (''vector_store'', True)],
                    error_detail = None\<rparr>)
      \<and> (?hl \<and> \<not> ?he \<and> ?hv \<longrightarrow>
           fst (validate_all_connections cfg s)
             = Inr [(''llm_provider'', True), (''embeddings_service'', False),
                    (''vector_store'', True)]
           \<and> fst (readiness_check cfg s)
             = Inr \<lparr>status_code = 503, status = ''not ready'',
                    services = Some [(''llm_provider'', True), (''embeddings_service'', False),
                                     (''vector_store'', True)],
                    error_detail = None\<rparr>)
      \<and> (?hl \<and> ?he \<and> \<not> ?hv \<longrightarrow>
           fst (validate_all_connections cfg s)
             = Inr [(''llm_provider'', True), (''embeddings_service'', True),
                    (''vector_store'', False)]
           \<and> fst (readiness_check cfg s)
             = Inr \<lparr>status_code = 503, status = ''not ready'',
                    services = Some [(''llm_provider'', True), (''embeddings_service'', True),
                                     (''vector_store'', False)],
                    error_detail = None\<rparr>)"
      unfolding r v by simp
  qed
  have through: "fst (readiness_check cfg s) = Inl e"
    if "fst (validate_all_connections cfg s) = Inl e" "\<not> is_exception e"
    unfolding readiness_of_validation using that by simp
  have B: "role_raises cfg LLM s = Some e \<and> \<not> is_exception e \<longrightarrow>
        fst (validate_all_connections cfg s) = Inl e
        \<and> fst (readiness_check cfg s) = Inl e"
  proof
    assume a: "role_raises cfg LLM s = Some e \<and> \<not> is_exception e"
    then have "fst (validate_all_connections cfg s) = Inl e"
      unfolding validate_all_run by (simp add: role_outcome_aborts)
    with a through show "fst (validate_all_connections cfg s) = Inl e
        \<and> fst (readiness_check cfg s) = Inl e"
      by blast
  qed
  have C: "\<not> role_aborts cfg LLM s
        \<and> role_raises cfg Embeddings s = Some e \<and> \<not> is_exception e \<longrightarrow>
        fst (validate_all_connections cfg s) = Inl e
        \<and> fst (readiness_check cfg s) = Inl e"
  proof
    assume a: "\<not> role_aborts cfg LLM s
        \<and> role_raises cfg Embeddings s = Some e \<and> \<not> is_exception e"
    then have "fst (validate_all_connections cfg s) = Inl e"
      unfolding validate_all_run by (simp add: role_outcome_aborts role_outcome_recorded)
    with a through show "fst (validate_all_connections cfg s) = Inl e
        \<and> fst (readiness_check cfg s) = Inl e"
      by blast
  qed
  have D: "\<not> role_aborts cfg LLM s \<and> \<not> role_aborts cfg Embeddings s
        \<and> role_raises cfg VectorStore s = Some e \<and> \<not> is_exception e \<longrightarrow>
        fst (validate_all_connections cfg s) = Inl e
        \<and> fst (readiness_check cfg s) = Inl e"
  proof
    assume a: "\<not> role_aborts cfg LLM s \<and> \<not> role_aborts cfg Embeddings s
        \<and> role_raises cfg VectorStore s = Some e \<and> \<not> is_exception e"
    then have "fst (validate_all_connections cfg s) = Inl e"
      unfolding validate_all_run by (simp add: role_outcome_aborts role_outcome_recorded)
    with a through show "fst (validate_all_connections cfg s) = Inl e
        \<and> fst (readiness_check cfg s) = Inl e"
      by blast
  qed
  show ?thesis
    using A B C D by (intro conjI) assumption+
qed

text \<open>
  One failing role at a time: an LLM provider setting that names no registered class, an
  embeddings class whose constructor raises, a vector store whose connection check
  raises; the registry in which nothing fails; and an embeddings class whose
  constructor exits the interpreter.
\<close>

theorem validate_all_isolates_failures_witness:
  "fst (validate_all_connections (default_settings\<lparr>llm_provider := ''anthropic''\<rparr>) stub_factory)
     = Inr [(''llm_provider'', False), (''embeddings_service'', True), (''vector_store'', True)]
   \<and> fst (validate_all_connections default_settings
        (register_embeddings_service ''openai''
           \<lparr>class_name = ''Embed'', init_raises = True, init_error = ConstructorError ''Embed'',
            connection = ProbeTrue\<rparr> stub_factory))
     = Inr [(''llm_provider'', True), (''embeddings_service'', False), (''vector_store'', True)]
   \<and> fst (validate_all_connections default_settings
        (register_vector_store ''pinecone''
           \<lparr>class_name = ''Store'', init_raises = False, init_error = ConstructorError ''Store'',
            connection = ProbeRaises ProbeError\<rparr> stub_factory))
     = Inr [(''llm_provider'', True), (''embeddings_service'', True), (''vector_store'', False)]
   \<and> fst (readiness_check default_settings
        (register_vector_store ''pinecone''
           \<lparr>class_name = ''Store'', init_raises = False, init_error = ConstructorError ''Store'',
            connection = ProbeRaises ProbeError\<rparr> stub_factory))
     = Inr \<lparr>status_code = 503, status = ''not ready'',
            services = Some [(''llm_provider'', True), (''embeddings_service'', True),
                             (''vector_store'', False)],
            error_detail = None\<rparr>
   \<and> fst (readiness_check default_settings stub_factory)
     = Inr \<lparr>status_code = 200, status = ''ready'',
            services = Some [(''llm_provider'', True), (''embeddings_service'', True),
                             (''vector_store'', True)],
            error_detail = None\<rparr>
   \<and> fst (validate_all_connections default_settings
        (register_embeddings_service ''openai''
           \<lparr>class_name = ''Embed'', init_raises = True, init_error = NotException ''SystemExit'',
            connection = ProbeTrue\<rparr> stub_factory))
     = Inl (NotException ''SystemExit'')"
  using
    validate_all_isolates_failures
      [of "default_settings\<lparr>llm_provider := ''anthropic''\<rparr>" stub_factory]
    validate_all_isolates_failures
      [of default_settings
          "register_embeddings_service ''openai''
             \<lparr>class_name = ''Embed'', init_raises = True, init_error = ConstructorError ''Embed'',
              connection = ProbeTrue\<rparr> stub_factory"]
    validate_all_isolates_failures
      [of default_settings
          "register_vector_store ''pinecone''
             \<lparr>class_name = ''Store'', init_raises = False, init_error = ConstructorError ''Store'',
              connection = ProbeRaises ProbeError\<rparr> stub_factory"]
    validate_all_isolates_failures [of default_settings stub_factory]
    validate_all_isolates_failures
      [of default_settings
          "register_embeddings_service ''openai''
             \<lparr>class_name = ''Embed'', init_raises = True, init_error = NotException ''SystemExit'',
              connection = ProbeTrue\<rparr> stub_factory"
          "NotException ''SystemExit''"]
  by (simp add: role_healthy_def role_aborts_def role_raises_def is_exception_def
      served_class_def cache_key_def registry_def role_label_def factory_eval)

section \<open>Registry: resolving the dependencies of the chat service\<close>




section \<open>Embeddings: batching\<close>

subsection \<open>Facts about slices\<close>

lemma batches_Nil [simp]: "batches n [] = []"
  by (simp add: batches.simps)

lemma batches_step:
  "0 < n \<Longrightarrow> xs \<noteq> [] \<Longrightarrow> batches n xs = take n xs # batches n (drop n xs)"
  by (subst batches.simps) simp




lemma batches_nonempty: "0 < n \<Longrightarrow> b \<in> set (batches n xs) \<Longrightarrow> b \<noteq> [] \<and> length b \<le> n"
proof (induction n xs rule: batches.induct)
  case (1 n xs)
  from 1(3) have ne: "xs \<noteq> []" by auto
  with 1 show ?case by (auto simp: batches_step)
qed


subsection \<open>One batch\<close>


lemma embed_batch_trace:
  "snd (embed_batch client m kw b tr) = tr @ [ApiCall m b kw]"
  by (simp add: embed_batch_def Let_def split: sum.splits)



subsection \<open>The recorded events\<close>

lemma api_inputs_append [simp]: "api_inputs (xs @ ys) = api_inputs xs @ api_inputs ys"
  by (simp add: api_inputs_def)

lemma api_inputs_simps [simp]:
  "api_inputs (ApiCall m b kw # es) = b # api_inputs es"
  "api_inputs (Sleep # es) = api_inputs es"
  "api_inputs [] = []"
  by (simp_all add: api_inputs_def)

lemma sleeps_append [simp]: "sleeps (xs @ ys) = sleeps xs + sleeps ys"
  by (simp add: sleeps_def)

lemma sleeps_simps [simp]:
  "sleeps (ApiCall m b kw # es) = sleeps es"
  "sleeps (Sleep # es) = Suc (sleeps es)"
  "sleeps [] = 0"
  by (simp_all add: sleeps_def)

subsection \<open>The loop\<close>







subsection \<open>The first request that fails\<close>







subsection \<open>The whole call\<close>


text \<open>
  C10. With no texts, \<open>embed_texts\<close> returns the empty list and does nothing to the
  outside: no request, no pause, whatever the model and the batch size (zero and
  negative sizes included).
\<close>

theorem embed_texts_empty:
  "embed_texts default_model client [] model_arg batch_size kw tr = (Inr [], tr)
   \<and> api_inputs (snd (embed_texts default_model client [] model_arg batch_size kw tr))
       = api_inputs tr
   \<and> sleeps (snd (embed_texts default_model client [] model_arg batch_size kw tr)) = sleeps tr"
  by (simp add: embed_texts_def)



end
